theory Spec2Isabelle
  imports Main "HOL-Library.AList" "HOL-Library.Sublist"
begin

section \<open>JSON values\<close>

text \<open>
  A parsed JSON document, as \<^verbatim>\<open>JSON.parse\<close> returns it. An object is the list of its
  own properties in the order \<^verbatim>\<open>Object.keys\<close> enumerates them; the keys of one object
  are pairwise distinct (\<open>wf_json\<close> below). A finite number is represented by an integer:
  the program copies numbers, compares them and tests them for zero, and computes with
  none. A number literal beyond the range of a double parses to \<^verbatim>\<open>Infinity\<close> or
  \<^verbatim>\<open>-Infinity\<close>, which are values of their own.

  Conventions of the embedding:
  \<^item> a property read \<^verbatim>\<open>o[k]\<close> at a key the object owns is a lookup among its own
    properties (\<open>getProp\<close>, used only at keys taken from \<^verbatim>\<open>Object.keys\<close>); a read at a key
    that may be missing also sees the names every object inherits (\<open>inherited\<close> below);
  \<^item> a property created by assignment is appended to the enumeration order (JavaScript
    enumerates integer-like keys first; this reordering is not tracked);
  \<^item> \<^verbatim>\<open>JSON.stringify\<close> prints \<^verbatim>\<open>Infinity\<close> and \<^verbatim>\<open>-Infinity\<close> as \<^verbatim>\<open>null\<close>; apart from
    that it keeps the key order and prints different values differently, and
    \<^verbatim>\<open>JSON.parse\<close> reads back what was printed. So \<^verbatim>\<open>JSON.parse(JSON.stringify(v))\<close> is
    \<open>jsonCopy v\<close> below, and \<^verbatim>\<open>JSON.stringify(a) !== JSON.stringify(b)\<close> is
    \<open>jsonCopy a \<noteq> jsonCopy b\<close>;
  \<^item> the modules are CommonJS scripts without \<^verbatim>\<open>'use strict'\<close>: an assignment to a
    property of a number, boolean or string is silently ignored;
  \<^item> a string is a list of characters of \<^typ>\<open>char\<close>, the code units up to U+00FF;
  \<^item> \<^verbatim>\<open>-0\<close> is not told apart from \<^verbatim>\<open>0\<close>: neither \<^verbatim>\<open>!==\<close>, \<^verbatim>\<open>includes\<close>, \<^verbatim>\<open>!x\<close> nor
    \<^verbatim>\<open>JSON.stringify\<close> tells them apart.
\<close>

datatype json =
    JNull
  | JBool bool
  | JNum int
  | JInfinity
  | JNegInfinity
  | JStr string
  | JArr "json list"
  | JObj "(string \<times> json) list"

fun wf_json :: "json \<Rightarrow> bool" where
  "wf_json (JArr xs) = list_all wf_json xs"
| "wf_json (JObj fs) = (distinct (map fst fs) \<and> list_all (\<lambda>(k, v). wf_json v) fs)"
| "wf_json _ = True"

datatype jstype = TObject | TBoolean | TNumber | TString

text \<open>The \<^verbatim>\<open>typeof\<close> operator: null, arrays and plain objects are all \<^verbatim>\<open>'object'\<close>.\<close>

fun typeof :: "json \<Rightarrow> jstype" where
  "typeof JNull = TObject"
| "typeof (JBool _) = TBoolean"
| "typeof (JNum _) = TNumber"
| "typeof JInfinity = TNumber"
| "typeof JNegInfinity = TNumber"
| "typeof (JStr _) = TString"
| "typeof (JArr _) = TObject"
| "typeof (JObj _) = TObject"

fun isArray :: "json \<Rightarrow> bool" where
  "isArray (JArr _) = True"
| "isArray _ = False"

text \<open>Decimal rendering of an array index, as a template literal \<^verbatim>\<open>${i}\<close> prints it.\<close>

definition digit_char :: "nat \<Rightarrow> char" where
  "digit_char d = char_of (48 + d)"

function string_of_nat :: "nat \<Rightarrow> string" where
  "string_of_nat n =
     (if n < 10 then [digit_char n] else string_of_nat (n div 10) @ [digit_char (n mod 10)])"
  by pat_completeness auto
termination
  by (relation "measure id") auto

declare string_of_nat.simps [simp del]

text \<open>
  \<^verbatim>\<open>Object.keys(v)\<close> paired with \<^verbatim>\<open>v[key]\<close> for a non-null value of type
  \<^verbatim>\<open>'object'\<close>: the own properties of an object, the indices of an array.
\<close>

fun entries :: "json \<Rightarrow> (string \<times> json) list" where
  "entries (JObj fs) = fs"
| "entries (JArr xs) = zip (map string_of_nat [0..<length xs]) xs"
| "entries _ = []"

definition keys :: "json \<Rightarrow> string list" where
  "keys v = map fst (entries v)"

definition getProp :: "json \<Rightarrow> string \<Rightarrow> json" where
  "getProp v key = the (map_of (entries v) key)"

text \<open>\<^verbatim>\<open>JSON.parse(JSON.stringify(v))\<close>\<close>

fun jsonCopy :: "json \<Rightarrow> json" where
  "jsonCopy JInfinity = JNull"
| "jsonCopy JNegInfinity = JNull"
| "jsonCopy (JArr xs) = JArr (map jsonCopy xs)"
| "jsonCopy (JObj fs) = JObj (map (\<lambda>kv. (fst kv, jsonCopy (snd kv))) fs)"
| "jsonCopy v = v"

section \<open>Results and inherited properties\<close>

text \<open>
  An exception of the source is a value: \<open>TypeError\<close> is what a property access on
  \<^verbatim>\<open>null\<close> or \<^verbatim>\<open>undefined\<close> throws. \<open>OutsideModel\<close> answers the situations that
  leave the parsed JSON documents: each is named where it arises. No theorem below asserts
  anything about an \<open>OutsideModel\<close> answer.
\<close>

datatype error = TypeError | OutsideModel

text \<open>
  A plain object inherits the members of \<^verbatim>\<open>Object.prototype\<close>: a read \<^verbatim>\<open>o[k]\<close> of a key
  the object does not own finds a function under these names, and the object's prototype
  under \<^verbatim>\<open>__proto__\<close>.
\<close>

definition protoNames :: "string list" where
  "protoNames =
     [''constructor'', ''hasOwnProperty'', ''isPrototypeOf'', ''propertyIsEnumerable'',
      ''toLocaleString'', ''toString'', ''valueOf'', ''__proto__'', ''__defineGetter__'',
      ''__defineSetter__'', ''__lookupGetter__'', ''__lookupSetter__'']"

definition inherited :: "string \<Rightarrow> bool" where
  "inherited k = (k \<in> set protoNames)"

text \<open>
  \<^verbatim>\<open>o[k] = v\<close> on a plain object stores an own property, except that the name
  \<^verbatim>\<open>__proto__\<close>, when the object does not own it, reaches the setter of the prototype:
  no property is stored and the prototype may change, which is outside the model.
\<close>

definition assignProp :: "(string \<times> json) list \<Rightarrow> string \<Rightarrow> json \<Rightarrow> error + (string \<times> json) list" where
  "assignProp fs k v =
     (if k = ''__proto__'' \<and> map_of fs k = None then Inl OutsideModel
      else Inr (AList.update k v fs))"

section \<open>deepCompare (src/index.js)\<close>

datatype kind = KindN | KindD | KindE

datatype change = Change (kind: kind) (path: string) (lhs: "json option") (rhs: "json option")

text \<open>\<^verbatim>\<open>basePath ? `${basePath}.${key}` : key\<close> and \<^verbatim>\<open>basePath ? `${basePath}[${i}]` : `[${i}]`\<close>.\<close>

definition keyPath :: "string \<Rightarrow> string \<Rightarrow> string" where
  "keyPath basePath key = (if basePath \<noteq> [] then basePath @ ''.'' @ key else key)"

definition indexPath :: "string \<Rightarrow> nat \<Rightarrow> string" where
  "indexPath basePath i =
     (if basePath \<noteq> [] then basePath @ ''['' @ string_of_nat i @ '']''
      else ''['' @ string_of_nat i @ '']'')"

lemma size_nth_le: "i < length xs \<Longrightarrow> size (xs ! i) \<le> size_list size xs"
proof (induction xs arbitrary: i)
  case (Cons x xs)
  show ?case
  proof (cases i)
    case 0
    then show ?thesis by simp
  next
    case (Suc j)
    with Cons.prems have "j < length xs" by simp
    from Cons.IH [OF this] show ?thesis using Suc by simp
  qed
qed simp

lemma size_map_of_less:
  "map_of fs k = Some v \<Longrightarrow> size v < Suc (size_list (size_prod (\<lambda>_. 0) size) fs)"
  by (induction fs) (auto split: if_splits)

lemma map_of_index_entries:
  "map_of (zip (map f [0..<length xs]) xs) k = Some v \<Longrightarrow> v \<in> set xs"
  by (auto dest!: map_of_SomeD set_zip_rightD)

lemma size_entries_less: "map_of (entries v) k = Some w \<Longrightarrow> size w < size v"
proof (cases v)
  case (JArr xs)
  assume "map_of (entries v) k = Some w"
  with JArr have "w \<in> set xs" by (auto dest: map_of_index_entries)
  then obtain i where "i < length xs" "xs ! i = w" by (auto simp: in_set_conv_nth)
  with size_nth_le [of i xs] JArr show ?thesis by auto
next
  case (JObj fs)
  assume "map_of (entries v) k = Some w"
  with JObj size_map_of_less [of fs k w] show ?thesis by auto
qed auto

lemma size_getProp_less: "key \<in> set (keys v) \<Longrightarrow> size (getProp v key) < size v"
proof -
  assume "key \<in> set (keys v)"
  then obtain w where "map_of (entries v) key = Some w"
    by (auto simp: keys_def weak_map_of_SomeI dest!: weak_map_of_SomeI)
  then show ?thesis by (simp add: getProp_def size_entries_less)
qed

text \<open>
  The three loops push onto \<^verbatim>\<open>differences\<close>; each is a left fold whose accumulator is the
  list built so far.
\<close>

function deepCompare :: "json \<Rightarrow> json \<Rightarrow> string \<Rightarrow> change list" where
  "deepCompare obj1 obj2 basePath =
    (if typeof obj1 \<noteq> typeof obj2 then
       [Change KindE basePath (Some obj1) (Some obj2)]
     else if isArray obj1 \<and> isArray obj2 then
       (case (obj1, obj2) of (JArr xs, JArr ys) \<Rightarrow>
          foldl (\<lambda>differences i.
              let currentPath = indexPath basePath i in
              if i \<ge> length xs then
                differences @ [Change KindN currentPath None (Some (ys ! i))]
              else if i \<ge> length ys then
                differences @ [Change KindD currentPath (Some (xs ! i)) None]
              else
                differences @ deepCompare (xs ! i) (ys ! i) currentPath)
            [] [0..<max (length xs) (length ys)]
        | _ \<Rightarrow> [])
     else if typeof obj1 = TObject \<and> obj1 \<noteq> JNull \<and> obj2 \<noteq> JNull then
       (let keys1 = keys obj1;
            keys2 = keys obj2;
            removed = foldl (\<lambda>differences key.
                if key \<notin> set keys2 then
                  differences @ [Change KindD (keyPath basePath key) (Some (getProp obj1 key)) None]
                else differences) [] keys1;
            added = foldl (\<lambda>differences key.
                if key \<notin> set keys1 then
                  differences @ [Change KindN (keyPath basePath key) None (Some (getProp obj2 key))]
                else differences) removed keys2
        in foldl (\<lambda>differences key.
              let currentPath = keyPath basePath key in
              if typeof (getProp obj1 key) = TObject \<and> typeof (getProp obj2 key) = TObject \<and>
                 getProp obj1 key \<noteq> JNull \<and> getProp obj2 key \<noteq> JNull then
                differences @ deepCompare (getProp obj1 key) (getProp obj2 key) currentPath
              else if jsonCopy (getProp obj1 key) \<noteq> jsonCopy (getProp obj2 key) then
                differences @ [Change KindE currentPath (Some (getProp obj1 key)) (Some (getProp obj2 key))]
              else differences)
            added (filter (\<lambda>k. k \<in> set keys2) keys1))
     else if obj1 \<noteq> obj2 then
       [Change KindE basePath (Some obj1) (Some obj2)]
     else [])"
  by pat_completeness auto
termination
  by (relation "measure (\<lambda>(obj1, obj2, basePath). size obj1)")
     (auto simp: size_getProp_less not_le less_Suc_eq_le size_nth_le)

declare deepCompare.simps [simp del]

text \<open>The records one container contributes, named as the documentation names them.\<close>

definition removedRecords :: "json \<Rightarrow> json \<Rightarrow> string \<Rightarrow> change list" where
  "removedRecords obj1 obj2 basePath =
     map (\<lambda>key. Change KindD (keyPath basePath key) (Some (getProp obj1 key)) None)
       (filter (\<lambda>key. key \<notin> set (keys obj2)) (keys obj1))"

definition addedRecords :: "json \<Rightarrow> json \<Rightarrow> string \<Rightarrow> change list" where
  "addedRecords obj1 obj2 basePath =
     map (\<lambda>key. Change KindN (keyPath basePath key) None (Some (getProp obj2 key)))
       (filter (\<lambda>key. key \<notin> set (keys obj1)) (keys obj2))"

definition commonKeys :: "json \<Rightarrow> json \<Rightarrow> string list" where
  "commonKeys obj1 obj2 = filter (\<lambda>key. key \<in> set (keys obj2)) (keys obj1)"

definition memberRecords :: "json \<Rightarrow> json \<Rightarrow> string \<Rightarrow> change list" where
  "memberRecords v1 v2 currentPath =
     (if typeof v1 = TObject \<and> typeof v2 = TObject \<and> v1 \<noteq> JNull \<and> v2 \<noteq> JNull then
        deepCompare v1 v2 currentPath
      else if jsonCopy v1 \<noteq> jsonCopy v2 then [Change KindE currentPath (Some v1) (Some v2)]
      else [])"

section \<open>generatePatch (src/index.js)\<close>

datatype opname = OpAdd | OpRemove | OpReplace | OpOther

datatype patch = Patch (op: opname) (ppath: string) (pvalue: "json option")

text \<open>\<^verbatim>\<open>change.path ? `/${change.path.replace(/\./g, '/')}` : ''\<close>\<close>

definition patchPath :: "string \<Rightarrow> string" where
  "patchPath p =
     (if p \<noteq> [] then CHR ''/'' # map (\<lambda>c. if c = CHR ''.'' then CHR ''/'' else c) p else [])"

definition generatePatch :: "change list \<Rightarrow> patch list" where
  "generatePatch differences =
     map (\<lambda>change. case kind change of
           KindN \<Rightarrow> Patch OpAdd (patchPath (path change)) (rhs change)
         | KindD \<Rightarrow> Patch OpRemove (patchPath (path change)) None
         | KindE \<Rightarrow> Patch OpReplace (patchPath (path change)) (rhs change))
       differences"

section \<open>applyPatch (src/index.js)\<close>

text \<open>
  \<^verbatim>\<open>applyPatch\<close> mutates a deep copy of its input (\<open>jsonCopy\<close>); the embedding returns
  the rebuilt tree.
  Outside the model are: a property of an array that is not one of its indices (a
  non-numeric segment, or an index of \<open>2^32 - 1\<close> and more), a walk into a built-in, and
  an add or replace operation without a \<^verbatim>\<open>value\<close>. The hole that an assignment beyond
  the end of an array leaves is written \<open>JNull\<close>, as \<^verbatim>\<open>JSON.stringify\<close> prints it.
\<close>

text \<open>\<^verbatim>\<open>s.split(c)\<close> for a one-character separator.\<close>

fun split_on :: "char \<Rightarrow> string \<Rightarrow> string list" where
  "split_on c [] = [[]]"
| "split_on c (x # xs) =
     (if x = c then [] # split_on c xs
      else (case split_on c xs of w # ws \<Rightarrow> (x # w) # ws | [] \<Rightarrow> [[x]]))"

text \<open>\<^verbatim>\<open>patch.path.split('/').filter(p => p)\<close>\<close>

definition pathParts :: "string \<Rightarrow> string list" where
  "pathParts p = filter (\<lambda>part. part \<noteq> []) (split_on CHR ''/'' p)"

definition is_digit :: "char \<Rightarrow> bool" where
  "is_digit c = (48 \<le> (of_char c :: nat) \<and> (of_char c :: nat) \<le> 57)"

definition digit_val :: "char \<Rightarrow> nat" where
  "digit_val c = of_char c - 48"

text \<open>\<^verbatim>\<open>part.match(/^(\d+)$/)\<close>\<close>

definition all_digits :: "string \<Rightarrow> bool" where
  "all_digits part = (part \<noteq> [] \<and> list_all is_digit part)"

definition nat_of_digits :: "string \<Rightarrow> nat" where
  "nat_of_digits ds = foldl (\<lambda>n c. 10 * n + digit_val c) 0 ds"

text \<open>
  \<^verbatim>\<open>parseInt(s)\<close>: leading white space, a sign, an optional \<^verbatim>\<open>0x\<close> prefix, then the longest
  run of digits; \<open>None\<close> is \<^verbatim>\<open>NaN\<close>. The white space of the language among the characters
  of \<^typ>\<open>char\<close> is tab, line feed, vertical tab, form feed, carriage return, space and
  the no-break space.
\<close>

definition is_space :: "char \<Rightarrow> bool" where
  "is_space c = ((of_char c :: nat) \<in> {9, 10, 11, 12, 13, 32, 160})"

definition is_hex_digit :: "char \<Rightarrow> bool" where
  "is_hex_digit c =
     (is_digit c \<or> (65 \<le> (of_char c :: nat) \<and> (of_char c :: nat) \<le> 70)
       \<or> (97 \<le> (of_char c :: nat) \<and> (of_char c :: nat) \<le> 102))"

definition hex_val :: "char \<Rightarrow> nat" where
  "hex_val c =
     (if is_digit c then digit_val c
      else if (of_char c :: nat) \<le> 70 then of_char c - 55 else of_char c - 87)"

definition parseInt :: "string \<Rightarrow> int option" where
  "parseInt s =
     (let t = dropWhile is_space s;
          negative = (take 1 t = ''-'');
          u = (if take 1 t = ''-'' \<or> take 1 t = ''+'' then drop 1 t else t);
          hex = (take 2 u = ''0x'' \<or> take 2 u = ''0X'');
          ds = (if hex then takeWhile is_hex_digit (drop 2 u) else takeWhile is_digit u);
          n = (if hex then foldl (\<lambda>n c. 16 * n + hex_val c) 0 ds else nat_of_digits ds)
      in if ds = [] then None else Some (if negative then - int n else int n))"

text \<open>\<^verbatim>\<open>current.splice(index, 0, value)\<close> and \<^verbatim>\<open>current.splice(index, 1)\<close>\<close>

definition relativeStart :: "int option \<Rightarrow> nat \<Rightarrow> nat" where
  "relativeStart start len =
     (case start of
        None \<Rightarrow> 0
      | Some n \<Rightarrow> if n < 0 then nat (max (int len + n) 0) else min (nat n) len)"

definition splice_insert :: "json list \<Rightarrow> int option \<Rightarrow> json \<Rightarrow> json list" where
  "splice_insert xs start v =
     (let k = relativeStart start (length xs) in take k xs @ [v] @ drop k xs)"

definition splice_remove :: "json list \<Rightarrow> int option \<Rightarrow> json list" where
  "splice_remove xs start =
     (let k = relativeStart start (length xs) in take k xs @ drop (Suc k) xs)"

text \<open>\<^verbatim>\<open>current[index] = value\<close> on an array.\<close>

definition arrayLimit :: int where
  "arrayLimit = 4294967295"

definition array_store :: "json list \<Rightarrow> nat \<Rightarrow> json \<Rightarrow> json list" where
  "array_store xs i v =
     (if i < length xs then xs[i := v] else xs @ replicate (i - length xs) JNull @ [v])"

definition assign_index :: "json list \<Rightarrow> int option \<Rightarrow> json \<Rightarrow> json list" where
  "assign_index xs index v =
     (case index of
        None \<Rightarrow> xs
      | Some n \<Rightarrow> if 0 \<le> n \<and> n < arrayLimit then array_store xs (nat n) v else xs)"

text \<open>What \<^verbatim>\<open>!x\<close> tests.\<close>

fun truthy :: "json \<Rightarrow> bool" where
  "truthy JNull = False"
| "truthy (JBool b) = b"
| "truthy (JNum n) = (n \<noteq> 0)"
| "truthy JInfinity = True"
| "truthy JNegInfinity = True"
| "truthy (JStr s) = (s \<noteq> [])"
| "truthy (JArr _) = True"
| "truthy (JObj _) = True"

text \<open>
  A property read on a number, boolean or string (\<open>None\<close> is \<^verbatim>\<open>undefined\<close>). A string
  has its characters under their indices; a read of any other name of a string, or of a
  name a number or boolean inherits, finds a built-in and is outside the model.
\<close>

definition numberNames :: "string list" where
  "numberNames = [''toExponential'', ''toFixed'', ''toPrecision'']"

fun primProp :: "json \<Rightarrow> string \<Rightarrow> error + json option" where
  "primProp (JStr s) part =
     (if all_digits part then
        (if string_of_nat (nat_of_digits part) = part \<and> nat_of_digits part < length s
         then Inr (Some (JStr [s ! nat_of_digits part])) else Inr None)
      else Inl OutsideModel)"
| "primProp (JBool b) part = (if inherited part then Inl OutsideModel else Inr None)"
| "primProp v part =
     (if inherited part \<or> part \<in> set numberNames then Inl OutsideModel else Inr None)"

text \<open>
  The rest of the walk once \<^verbatim>\<open>current\<close> is a primitive or \<^verbatim>\<open>undefined\<close>: nothing is
  stored, and the result is the error the walk or the final operation ends in, if any.
\<close>

fun walkPrimitive :: "json option \<Rightarrow> string list \<Rightarrow> opname \<Rightarrow> error option" where
  "walkPrimitive None [] opn = (if opn = OpOther then None else Some TypeError)"
| "walkPrimitive None (part # rest) opn = Some TypeError"
| "walkPrimitive (Some v) [] opn = None"
| "walkPrimitive (Some v) (part # rest) opn =
     (case primProp v part of
        Inl e \<Rightarrow> Some e
      | Inr r \<Rightarrow> walkPrimitive r rest opn)"

text \<open>The \<^verbatim>\<open>switch (patch.op)\<close> on the container the walk ended in.\<close>

fun applyOp :: "json \<Rightarrow> string \<Rightarrow> opname \<Rightarrow> json option \<Rightarrow> error + json" where
  "applyOp current lastPart OpOther v = Inr current"
| "applyOp JNull lastPart opn v = Inl TypeError"
| "applyOp (JArr xs) lastPart OpAdd (Some v) = Inr (JArr (splice_insert xs (parseInt lastPart) v))"
| "applyOp (JArr xs) lastPart OpRemove v = Inr (JArr (splice_remove xs (parseInt lastPart)))"
| "applyOp (JArr xs) lastPart OpReplace (Some v) = Inr (JArr (assign_index xs (parseInt lastPart) v))"
| "applyOp (JObj fs) lastPart OpRemove v = Inr (JObj (AList.delete lastPart fs))"
| "applyOp (JObj fs) lastPart opn (Some v) =
     (case assignProp fs lastPart v of Inl e \<Rightarrow> Inl e | Inr fs' \<Rightarrow> Inr (JObj fs'))"
| "applyOp (JArr xs) lastPart opn None = Inl OutsideModel"
| "applyOp (JObj fs) lastPart opn None = Inl OutsideModel"
| "applyOp current lastPart opn v = Inr current"

text \<open>
  The loop over all segments but the last, followed by the operation. The value returned
  is what \<^verbatim>\<open>current\<close> has become; the caller stores it back under the segment. A segment
  that an object does not own but inherits leads into a built-in, outside the model.
\<close>

fun walk :: "json \<Rightarrow> string list \<Rightarrow> string \<Rightarrow> opname \<Rightarrow> json option \<Rightarrow> error + json" where
  "walk current [] lastPart opn v = applyOp current lastPart opn v"
| "walk JNull (part # rest) lastPart opn v = Inl TypeError"
| "walk (JObj fs) (part # rest) lastPart opn v =
     (if map_of fs part = None \<and> inherited part then Inl OutsideModel
      else
        (let child = (case map_of fs part of
                        Some c \<Rightarrow> if truthy c then c else JObj []
                      | None \<Rightarrow> JObj [])
         in case walk child rest lastPart opn v of
              Inl e \<Rightarrow> Inl e
            | Inr c \<Rightarrow> Inr (JObj (AList.update part c fs))))"
| "walk (JArr xs) (part # rest) lastPart opn v =
     (if all_digits part \<and> int (nat_of_digits part) < arrayLimit then
        (let index = nat_of_digits part;
             child = (if index < length xs \<and> truthy (xs ! index) then xs ! index else JObj [])
         in case walk child rest lastPart opn v of
              Inl e \<Rightarrow> Inl e
            | Inr c \<Rightarrow> Inr (JArr (array_store xs index c)))
      else Inl OutsideModel)"
| "walk current (part # rest) lastPart opn v =
     (case walkPrimitive (Some current) (part # rest) opn of
        None \<Rightarrow> Inr current
      | Some e \<Rightarrow> Inl e)"

definition applyOne :: "json \<Rightarrow> patch \<Rightarrow> error + json" where
  "applyOne result p =
     (let parts = pathParts (ppath p) in
      if parts = [] then walk result [] ''undefined'' (op p) (pvalue p)
      else walk result (butlast parts) (last parts) (op p) (pvalue p))"

text \<open>The loop over the patches, on the copy \<^verbatim>\<open>result\<close>.\<close>

fun applyAll :: "json \<Rightarrow> patch list \<Rightarrow> error + json" where
  "applyAll result [] = Inr result"
| "applyAll result (p # patches) =
     (case applyOne result p of Inl e \<Rightarrow> Inl e | Inr result' \<Rightarrow> applyAll result' patches)"

definition applyPatch :: "json \<Rightarrow> patch list \<Rightarrow> error + json" where
  "applyPatch obj patches = applyAll (jsonCopy obj) patches"

section \<open>mergeJson and mergeArrays (merge.js)\<close>

text \<open>
  The merge module documents its parameters as objects; a root that is not a plain object
  is answered by \<open>OutsideModel\<close>.
\<close>

datatype strategy = Overwrite | Preserve | Merge

datatype arrayMerge = ArrOverwrite | ArrConcatenate | ArrMerge

text \<open>\<^verbatim>\<open>Array.isArray(v) ? 'array' : typeof v\<close>\<close>

datatype valueType = VArray | VType jstype

definition valueTypeOf :: "json \<Rightarrow> valueType" where
  "valueTypeOf v = (if isArray v then VArray else VType (typeof v))"

text \<open>
  \<^verbatim>\<open>result.some(i => JSON.stringify(i) === json)\<close> asks for an element that prints as
  the item does, \<^verbatim>\<open>result.includes(item)\<close> for the item itself among the elements.
\<close>

definition mergeArrays :: "json list \<Rightarrow> json list \<Rightarrow> json list" where
  "mergeArrays arr1 arr2 =
     foldl (\<lambda>result item.
         if typeof item = TObject \<and> item \<noteq> JNull then
           (if \<not> list_ex (\<lambda>i. jsonCopy i = jsonCopy item) result then result @ [item]
            else result)
         else if item \<notin> set result then result @ [item]
         else result)
       arr1 arr2"

text \<open>
  The inner \<^verbatim>\<open>merge(t, s)\<close>: one equation per iteration of the loop over
  \<^verbatim>\<open>Object.keys(s)\<close>, returning the target as the iteration leaves it. A source object
  with keys merged into a \<^verbatim>\<open>null\<close> target reads a property of \<^verbatim>\<open>null\<close>. For a key
  the target does not own but inherits, \<^verbatim>\<open>t[key]\<close> is a function, a value of another type
  than the source's; under \<^verbatim>\<open>__proto__\<close> it is the prototype, which is outside the model.
\<close>

fun merge ::
  "strategy \<Rightarrow> arrayMerge \<Rightarrow> (string \<times> json) list \<Rightarrow> (string \<times> json) list \<Rightarrow>
     error + (string \<times> json) list" where
  "merge st am t [] = Inr t"
| "merge st am t ((key, sourceValue) # s) =
     (case map_of t key of
        None \<Rightarrow>
          if key = ''__proto__'' then Inl OutsideModel
          else if inherited key \<and> st = Preserve then merge st am t s
          else merge st am (AList.update key (jsonCopy sourceValue) t) s
      | Some targetValue \<Rightarrow>
          if valueTypeOf sourceValue \<noteq> valueTypeOf targetValue then
            (if st = Preserve then merge st am t s
             else merge st am (AList.update key (jsonCopy sourceValue) t) s)
          else
            (case (sourceValue, targetValue) of
               (JArr ys, JArr xs) \<Rightarrow>
                 (case am of
                    ArrOverwrite \<Rightarrow> merge st am (AList.update key (jsonCopy (JArr ys)) t) s
                  | ArrConcatenate \<Rightarrow> merge st am (AList.update key (JArr (xs @ ys)) t) s
                  | ArrMerge \<Rightarrow> merge st am (AList.update key (JArr (mergeArrays xs ys)) t) s)
             | (JObj sf, JObj tf) \<Rightarrow>
                 (case merge st am tf sf of
                    Inl e \<Rightarrow> Inl e
                  | Inr tf' \<Rightarrow> merge st am (AList.update key (JObj tf') t) s)
             | (JObj sf, _) \<Rightarrow>
                 (if sf = [] then merge st am t s else Inl TypeError)
             | _ \<Rightarrow>
                 (if st = Preserve then merge st am t s
                  else merge st am (AList.update key (jsonCopy sourceValue) t) s)))"

definition mergeJson :: "json \<Rightarrow> json \<Rightarrow> strategy \<Rightarrow> arrayMerge \<Rightarrow> error + json" where
  "mergeJson target source st am =
     (case (jsonCopy target, source) of
        (JObj t, JObj s) \<Rightarrow>
          (case merge st am t s of Inl e \<Rightarrow> Inl e | Inr result \<Rightarrow> Inr (JObj result))
      | _ \<Rightarrow> Inl OutsideModel)"

section \<open>flattenObject and unflattenObject (merge.js)\<close>

text \<open>
  Both are modelled at their default separator \<^verbatim>\<open>'.'\<close>, which is how the module calls
  them. \<^verbatim>\<open>result[path] = current\<close> under the address \<^verbatim>\<open>__proto__\<close> reaches the
  setter of the prototype; a flattening that meets this address is outside the model.
\<close>

fun flatten :: "(string \<times> json) list \<Rightarrow> json \<Rightarrow> string \<Rightarrow> (string \<times> json) list" where
  "flatten result (JObj fs) p =
     foldl (\<lambda>result kv. flatten result (snd kv) (keyPath p (fst kv))) result fs"
| "flatten result current p = AList.update p current result"

definition flattenObject :: "json \<Rightarrow> error + (string \<times> json) list" where
  "flattenObject obj =
     (if ''__proto__'' \<in> set (map fst (flatten [] obj [])) then Inl OutsideModel
      else Inr (flatten [] obj []))"

text \<open>
  The walk shared by \<^verbatim>\<open>unflattenObject\<close> and \<^verbatim>\<open>setValue\<close>: an intermediate that is
  missing, falsy or not of type \<^verbatim>\<open>'object'\<close> (an inherited function too) is replaced by
  \<^verbatim>\<open>{}\<close>. Walking into an array or into the prototype is outside the model.
\<close>

fun assignPath ::
  "(string \<times> json) list \<Rightarrow> string list \<Rightarrow> json \<Rightarrow> error + (string \<times> json) list" where
  "assignPath current [] v = Inr current"
| "assignPath current [key] v = assignProp current key v"
| "assignPath current (key # rest) v =
     (case map_of current key of
        Some (JArr xs) \<Rightarrow> Inl OutsideModel
      | Some (JObj child) \<Rightarrow>
          (case assignPath child rest v of
             Inl e \<Rightarrow> Inl e
           | Inr c \<Rightarrow> Inr (AList.update key (JObj c) current))
      | Some other \<Rightarrow>
          (case assignPath [] rest v of
             Inl e \<Rightarrow> Inl e
           | Inr c \<Rightarrow> Inr (AList.update key (JObj c) current))
      | None \<Rightarrow>
          if key = ''__proto__'' then Inl OutsideModel
          else
            (case assignPath [] rest v of
               Inl e \<Rightarrow> Inl e
             | Inr c \<Rightarrow> Inr (AList.update key (JObj c) current)))"

fun unflattenFrom ::
  "(string \<times> json) list \<Rightarrow> (string \<times> json) list \<Rightarrow> error + (string \<times> json) list" where
  "unflattenFrom result [] = Inr result"
| "unflattenFrom result ((p, v) # obj) =
     (case assignPath result (split_on CHR ''.'' p) v of
        Inl e \<Rightarrow> Inl e
      | Inr result' \<Rightarrow> unflattenFrom result' obj)"

definition unflattenObject :: "(string \<times> json) list \<Rightarrow> error + json" where
  "unflattenObject obj =
     (case unflattenFrom [] obj of Inl e \<Rightarrow> Inl e | Inr result \<Rightarrow> Inr (JObj result))"

section \<open>threeWayMerge (merge.js)\<close>

text \<open>What a read \<^verbatim>\<open>o[k]\<close> of a plain object finds.\<close>

datatype propRead = Own json | Inherited | Undefined

definition readProp :: "(string \<times> json) list \<Rightarrow> string \<Rightarrow> propRead" where
  "readProp fs k =
     (case map_of fs k of
        Some v \<Rightarrow> Own v
      | None \<Rightarrow> if inherited k then Inherited else Undefined)"

datatype changeEntry = ChangeEntry (ch_from: propRead) (ch_value: json)

text \<open>
  \<^verbatim>\<open>flatFrom[path] !== value\<close>: strict inequality compares numbers, strings, booleans and
  \<^verbatim>\<open>null\<close> by value and arrays and objects by identity. The two trees are parsed
  separately, so an array of one is never the same object as an array of the other.
\<close>

fun isReference :: "json \<Rightarrow> bool" where
  "isReference (JArr _) = True"
| "isReference (JObj _) = True"
| "isReference _ = False"

definition strictNotEqual :: "propRead \<Rightarrow> json \<Rightarrow> bool" where
  "strictNotEqual a b =
     (case a of
        Own x \<Rightarrow> if isReference x \<and> isReference b then True else x \<noteq> b
      | _ \<Rightarrow> True)"

definition compareChanges :: "json \<Rightarrow> json \<Rightarrow> error + (string \<times> changeEntry) list" where
  "compareChanges from to =
     (case (flattenObject from, flattenObject to) of
        (Inr flatFrom, Inr flatTo) \<Rightarrow>
          Inr (foldl (\<lambda>changes pv.
                if strictNotEqual (readProp flatFrom (fst pv)) (snd pv) then
                  AList.update (fst pv) (ChangeEntry (readProp flatFrom (fst pv)) (snd pv)) changes
                else changes)
              [] flatTo)
      | _ \<Rightarrow> Inl OutsideModel)"

text \<open>
  \<^verbatim>\<open>remoteChanges[path] && JSON.stringify(...) !== JSON.stringify(...)\<close>: an address the
  remote changes do not own but inherit reads as a function, which is truthy and has no
  \<^verbatim>\<open>value\<close>, so that the comparison is of a string with \<^verbatim>\<open>undefined\<close>.
\<close>

definition findConflicts ::
  "(string \<times> changeEntry) list \<Rightarrow> (string \<times> changeEntry) list \<Rightarrow> string list" where
  "findConflicts localChanges remoteChanges =
     foldl (\<lambda>conflicts p.
         (case map_of remoteChanges p of
            Some remoteChange \<Rightarrow>
              if map_option (\<lambda>c. jsonCopy (ch_value c)) (map_of localChanges p) \<noteq>
                   Some (jsonCopy (ch_value remoteChange))
              then conflicts @ [p] else conflicts
          | None \<Rightarrow> if inherited p then conflicts @ [p] else conflicts))
       [] (map fst localChanges)"

definition setValue :: "(string \<times> json) list \<Rightarrow> string \<Rightarrow> json \<Rightarrow> error + (string \<times> json) list" where
  "setValue obj p v = assignPath obj (split_on CHR ''.'' p) (jsonCopy v)"

fun applyChanges ::
  "string list \<Rightarrow> (string \<times> json) list \<Rightarrow> (string \<times> changeEntry) list \<Rightarrow>
     error + (string \<times> json) list" where
  "applyChanges conflicts result [] = Inr result"
| "applyChanges conflicts result ((p, change) # changes) =
     (if p \<notin> set conflicts then
        (case setValue result p (ch_value change) of
           Inl e \<Rightarrow> Inl e
         | Inr result' \<Rightarrow> applyChanges conflicts result' changes)
      else applyChanges conflicts result changes)"

datatype conflict = Conflict (c_path: string) (c_local: "json option") (c_remote: "json option")

datatype mergeResult = MergeResult (merged: json) (conflicts: "conflict list")

definition threeWayMerge :: "json \<Rightarrow> json \<Rightarrow> json \<Rightarrow> error + mergeResult" where
  "threeWayMerge base local remote =
     (case jsonCopy base of
        JObj result \<Rightarrow>
          (case (compareChanges base local, compareChanges base remote) of
             (Inr localChanges, Inr remoteChanges) \<Rightarrow>
               (let conflicts = findConflicts localChanges remoteChanges
                in case applyChanges conflicts result localChanges of
                     Inl e \<Rightarrow> Inl e
                   | Inr result1 \<Rightarrow>
                       (case applyChanges conflicts result1 remoteChanges of
                          Inl e \<Rightarrow> Inl e
                        | Inr result2 \<Rightarrow>
                            Inr (MergeResult (JObj result2)
                              (map (\<lambda>p. Conflict p
                                     (map_option ch_value (map_of localChanges p))
                                     (map_option ch_value (map_of remoteChanges p)))
                                conflicts))))
           | _ \<Rightarrow> Inl OutsideModel)
      | _ \<Rightarrow> Inl OutsideModel)"

section \<open>Notions used in the statements\<close>

text \<open>The trees in which every array that is a member of an object, reached through objects, is empty.\<close>

fun noMemberElements :: "json \<Rightarrow> bool" where
  "noMemberElements (JArr xs) = (xs = [])"
| "noMemberElements (JObj fs) = list_all (\<lambda>kv. noMemberElements (snd kv)) fs"
| "noMemberElements _ = True"

text \<open>
  Keys that survive the dotted address of \<^verbatim>\<open>flattenObject\<close> (not empty, no dot, not
  \<^verbatim>\<open>__proto__\<close>), and keys that survive the pointer of \<^verbatim>\<open>generatePatch\<close> as well (no
  slash either).
\<close>

definition dotFree :: "string \<Rightarrow> bool" where
  "dotFree k = (k \<noteq> [] \<and> CHR ''.'' \<notin> set k \<and> k \<noteq> ''__proto__'')"

definition plainKey :: "string \<Rightarrow> bool" where
  "plainKey k = (dotFree k \<and> CHR ''/'' \<notin> set k)"

text \<open>
  An object tree without arrays: objects, whose keys are pairwise distinct and satisfy
  \<open>ok\<close>, over numbers, strings, booleans and \<^verbatim>\<open>null\<close>.
\<close>

fun objectTree :: "(string \<Rightarrow> bool) \<Rightarrow> json \<Rightarrow> bool" where
  "objectTree ok (JArr xs) = False"
| "objectTree ok (JObj fs) =
     (distinct (map fst fs) \<and> list_all (\<lambda>kv. ok (fst kv) \<and> objectTree ok (snd kv)) fs)"
| "objectTree ok v = True"

text \<open>No number at or below the value is \<^verbatim>\<open>Infinity\<close> or \<^verbatim>\<open>-Infinity\<close>.\<close>

fun finiteNumbers :: "json \<Rightarrow> bool" where
  "finiteNumbers JInfinity = False"
| "finiteNumbers JNegInfinity = False"
| "finiteNumbers (JArr xs) = list_all finiteNumbers xs"
| "finiteNumbers (JObj fs) = list_all (\<lambda>kv. finiteNumbers (snd kv)) fs"
| "finiteNumbers v = True"

text \<open>No object at or below the value is empty.\<close>

fun noEmptyObject :: "json \<Rightarrow> bool" where
  "noEmptyObject (JObj fs) = (fs \<noteq> [] \<and> list_all (\<lambda>kv. noEmptyObject (snd kv)) fs)"
| "noEmptyObject v = True"

text \<open>
  Structural equality of two trees: the same scalars, arrays equal element by element,
  objects with the same set of keys and structurally equal values under each key. The
  order in which an object enumerates its keys does not count.
\<close>

function (sequential) structEq :: "json \<Rightarrow> json \<Rightarrow> bool" where
  "structEq (JObj fs) (JObj gs) =
     (set (map fst fs) = set (map fst gs) \<and>
      list_all (\<lambda>k. structEq (the (map_of fs k)) (the (map_of gs k))) (map fst fs))"
| "structEq (JArr xs) (JArr ys) =
     (length xs = length ys \<and> list_all (\<lambda>i. structEq (xs ! i) (ys ! i)) [0..<length xs])"
| "structEq a b = (a = b)"
  by pat_completeness auto
termination
proof (relation "measure (\<lambda>(a, b). size a)", goal_cases)
  case 1
  show ?case by simp
next
  case (2 fs gs k)
  then obtain v where "map_of fs k = Some v"
    by (metis map_of_eq_None_iff option.exhaust set_map)
  with size_map_of_less [of fs k v] show ?case by simp
next
  case (3 xs ys i)
  with size_nth_le [of i xs] show ?case by (simp add: less_Suc_eq_le)
qed

section \<open>Addresses as lists of keys\<close>

text \<open>
  The proofs of the two round trips read an address as the list of its keys: \<open>dotted\<close>
  renders such a list the way the source builds the address, \<open>leaves\<close> lists the leaves
  of a tree under their key lists, \<open>assignAll\<close> stores leaves under key lists, and
  \<open>kdiff\<close> is the patch of two object trees with key lists for pointers, applied by
  \<open>kapply\<close>. They are related to the functions above by lemmas; no statement of a claim
  mentions them.
\<close>

fun dotted :: "string list \<Rightarrow> string" where
  "dotted [] = []"
| "dotted [k] = k"
| "dotted (k # k' # ks) = k @ CHR ''.'' # dotted (k' # ks)"

fun leaves :: "json \<Rightarrow> (string list \<times> json) list" where
  "leaves (JObj fs) = concat (map (\<lambda>kv. map (\<lambda>e. (fst kv # fst e, snd e)) (leaves (snd kv))) fs)"
| "leaves v = [([], v)]"

definition dot :: "string list \<times> json \<Rightarrow> string \<times> json" where
  "dot e = (dotted (fst e), snd e)"

fun assignAll ::
  "(string \<times> json) list \<Rightarrow> (string list \<times> json) list \<Rightarrow> error + (string \<times> json) list" where
  "assignAll result [] = Inr result"
| "assignAll result (e # es) =
     (case assignPath result (fst e) (snd e) of
        Inl err \<Rightarrow> Inl err
      | Inr result' \<Rightarrow> assignAll result' es)"

fun isObj :: "json \<Rightarrow> bool" where
  "isObj (JObj _) = True"
| "isObj _ = False"

type_synonym kop = "opname \<times> string list \<times> json option"

fun kapply :: "json \<Rightarrow> kop list \<Rightarrow> error + json" where
  "kapply t [] = Inr t"
| "kapply t ((opn, ks, v) # ops) =
     (case walk t (butlast ks) (last ks) opn v of
        Inl e \<Rightarrow> Inl e
      | Inr t' \<Rightarrow> kapply t' ops)"

definition toPatch :: "string list \<Rightarrow> kop \<Rightarrow> patch" where
  "toPatch pre = (\<lambda>(opn, ks, v). Patch opn (patchPath (dotted (pre @ ks))) v)"

definition under :: "string \<Rightarrow> kop \<Rightarrow> kop" where
  "under k = (\<lambda>(opn, ks, v). (opn, k # ks, v))"

function kdiff :: "json \<Rightarrow> json \<Rightarrow> kop list" where
  "kdiff obj1 obj2 =
     map (\<lambda>k. (OpRemove, [k], None)) (filter (\<lambda>k. k \<notin> set (keys obj2)) (keys obj1)) @
     map (\<lambda>k. (OpAdd, [k], Some (getProp obj2 k))) (filter (\<lambda>k. k \<notin> set (keys obj1)) (keys obj2)) @
     concat (map (\<lambda>k.
         if isObj (getProp obj1 k) \<and> isObj (getProp obj2 k) then
           map (under k) (kdiff (getProp obj1 k) (getProp obj2 k))
         else if jsonCopy (getProp obj1 k) \<noteq> jsonCopy (getProp obj2 k) then
           [(OpReplace, [k], Some (getProp obj2 k))]
         else [])
       (commonKeys obj1 obj2))"
  by pat_completeness auto
termination
  by (relation "measure (\<lambda>(obj1, obj2). size obj1)")
     (auto simp: commonKeys_def size_getProp_less)

declare kdiff.simps [simp del]

definition memberOps :: "json \<Rightarrow> json \<Rightarrow> string \<Rightarrow> kop list" where
  "memberOps obj1 obj2 k =
     (if isObj (getProp obj1 k) \<and> isObj (getProp obj2 k) then
        map (under k) (kdiff (getProp obj1 k) (getProp obj2 k))
      else if jsonCopy (getProp obj1 k) \<noteq> jsonCopy (getProp obj2 k) then
        [(OpReplace, [k], Some (getProp obj2 k))]
      else [])"

section \<open>Properties of jsonCopy\<close>

lemma jsonCopy_finite: "finiteNumbers v \<Longrightarrow> jsonCopy v = v"
  by (induction v) (auto simp: list_all_iff intro!: map_idI)

lemma finiteNumbers_member:
  assumes "finiteNumbers obj" "k \<in> set (keys obj)"
  shows "finiteNumbers (getProp obj k)"
proof -
  from assms(2) obtain v where v: "map_of (entries obj) k = Some v"
    by (auto simp: keys_def dest!: weak_map_of_SomeI)
  then have "v \<in> snd ` set (entries obj)"
    by (force dest: map_of_SomeD)
  with assms(1) have "finiteNumbers v"
    by (cases obj) (auto simp: list_all_iff dest: set_zip_rightD)
  with v show ?thesis by (simp add: getProp_def)
qed

section \<open>Properties of deepCompare and generatePatch\<close>

text \<open>Each loop appends to the list built so far, so the folds are concatenations.\<close>

lemma foldl_push_filter:
  "foldl (\<lambda>differences x. if P x then differences @ [g x] else differences) init xs =
     init @ map g (filter P xs)"
  by (induction xs arbitrary: init) auto

lemma foldl_push_concat:
  "(\<And>differences x. f differences x = differences @ g x) \<Longrightarrow>
     foldl f init xs = init @ concat (map g xs)"
  by (induction xs arbitrary: init) auto

lemma concat_map_single:
  "(\<And>x. x \<in> set xs \<Longrightarrow> g x = [h x]) \<Longrightarrow> concat (map g xs) = map h xs"
  by (induction xs) auto

lemma deepCompare_typeof_differs:
  "typeof obj1 \<noteq> typeof obj2 \<Longrightarrow>
     deepCompare obj1 obj2 basePath = [Change KindE basePath (Some obj1) (Some obj2)]"
  by (simp add: deepCompare.simps)

lemma deepCompare_members:
  assumes "typeof obj1 = TObject" "typeof obj2 = TObject" "obj1 \<noteq> JNull" "obj2 \<noteq> JNull"
    and "\<not> (isArray obj1 \<and> isArray obj2)"
  shows "deepCompare obj1 obj2 basePath =
     removedRecords obj1 obj2 basePath @ addedRecords obj1 obj2 basePath @
     concat (map (\<lambda>key. memberRecords (getProp obj1 key) (getProp obj2 key) (keyPath basePath key))
       (commonKeys obj1 obj2))"
proof -
  let ?step = "\<lambda>differences key.
      let currentPath = keyPath basePath key in
      if typeof (getProp obj1 key) = TObject \<and> typeof (getProp obj2 key) = TObject \<and>
         getProp obj1 key \<noteq> JNull \<and> getProp obj2 key \<noteq> JNull then
        differences @ deepCompare (getProp obj1 key) (getProp obj2 key) currentPath
      else if jsonCopy (getProp obj1 key) \<noteq> jsonCopy (getProp obj2 key) then
        differences @ [Change KindE currentPath (Some (getProp obj1 key)) (Some (getProp obj2 key))]
      else differences"
  have step: "\<And>differences key. ?step differences key =
      differences @ memberRecords (getProp obj1 key) (getProp obj2 key) (keyPath basePath key)"
    by (simp add: memberRecords_def Let_def)
  from assms(5) have both: "(isArray obj1 \<and> isArray obj2) = False"
    by simp
  have "deepCompare obj1 obj2 basePath =
      foldl ?step (removedRecords obj1 obj2 basePath @ addedRecords obj1 obj2 basePath)
        (commonKeys obj1 obj2)"
    using assms(1-4)
    by (subst deepCompare.simps)
       (simp add: both Let_def foldl_push_filter removedRecords_def addedRecords_def
          commonKeys_def del: foldl_append)
  also have "\<dots> = (removedRecords obj1 obj2 basePath @ addedRecords obj1 obj2 basePath) @
      concat (map (\<lambda>key. memberRecords (getProp obj1 key) (getProp obj2 key) (keyPath basePath key))
        (commonKeys obj1 obj2))"
    by (rule foldl_push_concat [OF step])
  finally show ?thesis by simp
qed

lemma deepCompare_elements:
  "deepCompare (JArr xs) (JArr ys) basePath =
     concat (map (\<lambda>i.
         if i \<ge> length xs then [Change KindN (indexPath basePath i) None (Some (ys ! i))]
         else if i \<ge> length ys then [Change KindD (indexPath basePath i) (Some (xs ! i)) None]
         else deepCompare (xs ! i) (ys ! i) (indexPath basePath i))
       [0..<max (length xs) (length ys)])"
proof -
  let ?step = "\<lambda>differences i.
      let currentPath = indexPath basePath i in
      if i \<ge> length xs then
        differences @ [Change KindN currentPath None (Some (ys ! i))]
      else if i \<ge> length ys then
        differences @ [Change KindD currentPath (Some (xs ! i)) None]
      else
        differences @ deepCompare (xs ! i) (ys ! i) currentPath"
  let ?g = "\<lambda>i.
      if i \<ge> length xs then [Change KindN (indexPath basePath i) None (Some (ys ! i))]
      else if i \<ge> length ys then [Change KindD (indexPath basePath i) (Some (xs ! i)) None]
      else deepCompare (xs ! i) (ys ! i) (indexPath basePath i)"
  have step: "\<And>differences i. ?step differences i = differences @ ?g i"
    by (simp add: Let_def)
  have "deepCompare (JArr xs) (JArr ys) basePath =
      foldl ?step [] [0..<max (length xs) (length ys)]"
    by (subst deepCompare.simps) simp
  also have "\<dots> = [] @ concat (map ?g [0..<max (length xs) (length ys)])"
    by (rule foldl_push_concat [OF step])
  finally show ?thesis by simp
qed

text \<open>
  C2. A pair of inputs whose container kinds differ should give exactly one Edited record
  at the current path. \<^verbatim>\<open>typeof\<close> is \<^verbatim>\<open>'object'\<close> for an array and for a plain object
  alike, so the type check lets the pair through and the object branch compares the array's
  indices with the object's keys: for \<^verbatim>\<open>[1]\<close> against \<^verbatim>\<open>{"x": 1}\<close> the result is a
  Removed record at \<^verbatim>\<open>0\<close> and an Added record at \<^verbatim>\<open>x\<close>, and no Edited record.
\<close>

theorem deepCompare_array_against_object:
  "deepCompare (JArr [JNum 1]) (JObj [(''x'', JNum 1)]) [] =
     [Change KindD ''0'' (Some (JNum 1)) None, Change KindN ''x'' None (Some (JNum 1))]"
  by code_simp

text \<open>
  C3. The pointer of a compiled operation should turn a bracketed index into a numeric
  segment, \<^verbatim>\<open>a[2].b\<close> into \<^verbatim>\<open>/a/2/b\<close>. \<^verbatim>\<open>generatePatch\<close> only replaces the dots: the
  Edited record at \<^verbatim>\<open>a[2].b\<close> compiles to a replace at \<^verbatim>\<open>/a[2]/b\<close>.
\<close>

theorem generatePatch_keeps_brackets:
  "generatePatch
     (deepCompare (JObj [(''a'', JArr [JNum 0, JNum 0, JObj [(''b'', JNum 1)]])])
        (JObj [(''a'', JArr [JNum 0, JNum 0, JObj [(''b'', JNum 2)]])]) []) =
     [Patch OpReplace ''/a[2]/b'' (Some (JNum 2))]"
  by code_simp

text \<open>
  C5, as stated, fails for arrays: the loop over the indices meets the indices present on
  both sides before the surplus ones, so the Edited record at \<^verbatim>\<open>[0]\<close> precedes the
  Removed record at \<^verbatim>\<open>[1]\<close>.
\<close>

theorem deepCompare_array_order_counterexample:
  "deepCompare (JArr [JNum 1, JNum 2]) (JArr [JNum 3]) [] =
     [Change KindE ''[0]'' (Some (JNum 1)) (Some (JNum 3)),
      Change KindD ''[1]'' (Some (JNum 2)) None]"
  by code_simp

text \<open>
  C5, amended. \<^verbatim>\<open>deepCompare\<close> is a function of its arguments and emits the records
  depth-first. Within an object: the Removed records in the left key order, then the Added
  records in the right key order, then for each key of the left object that the right one
  has too, in the left key order, its Edited record or the records of the recursion into
  it. Within an array the records follow the ascending index: the records of the recursion
  into every index present on both sides, then the Removed records of the surplus left
  indices or the Added records of the surplus right indices.
\<close>

theorem deepCompare_order:
  "deepCompare (JObj fs) (JObj gs) basePath =
     map (\<lambda>key. Change KindD (keyPath basePath key) (map_of fs key) None)
       (filter (\<lambda>key. key \<notin> set (map fst gs)) (map fst fs)) @
     map (\<lambda>key. Change KindN (keyPath basePath key) None (map_of gs key))
       (filter (\<lambda>key. key \<notin> set (map fst fs)) (map fst gs)) @
     concat (map (\<lambda>key. memberRecords (the (map_of fs key)) (the (map_of gs key))
                    (keyPath basePath key))
       (filter (\<lambda>key. key \<in> set (map fst gs)) (map fst fs))) \<and>
   deepCompare (JArr xs) (JArr ys) basePath =
     concat (map (\<lambda>i. deepCompare (xs ! i) (ys ! i) (indexPath basePath i))
       [0..<min (length xs) (length ys)]) @
     map (\<lambda>i. Change KindD (indexPath basePath i) (Some (xs ! i)) None) [length ys..<length xs] @
     map (\<lambda>i. Change KindN (indexPath basePath i) None (Some (ys ! i))) [length xs..<length ys]"
proof (rule conjI)
  have some: "\<And>hs key. key \<in> set (map fst hs) \<Longrightarrow> map_of hs key = Some (the (map_of hs key))"
    by (metis map_of_eq_None_iff option.exhaust_sel set_map)
  have rem: "removedRecords (JObj fs) (JObj gs) basePath =
      map (\<lambda>key. Change KindD (keyPath basePath key) (map_of fs key) None)
        (filter (\<lambda>key. key \<notin> set (map fst gs)) (map fst fs))"
    unfolding removedRecords_def keys_def getProp_def using some [of _ fs] by auto
  have add: "addedRecords (JObj fs) (JObj gs) basePath =
      map (\<lambda>key. Change KindN (keyPath basePath key) None (map_of gs key))
        (filter (\<lambda>key. key \<notin> set (map fst fs)) (map fst gs))"
    unfolding addedRecords_def keys_def getProp_def using some [of _ gs] by auto
  show "deepCompare (JObj fs) (JObj gs) basePath =
     map (\<lambda>key. Change KindD (keyPath basePath key) (map_of fs key) None)
       (filter (\<lambda>key. key \<notin> set (map fst gs)) (map fst fs)) @
     map (\<lambda>key. Change KindN (keyPath basePath key) None (map_of gs key))
       (filter (\<lambda>key. key \<notin> set (map fst fs)) (map fst gs)) @
     concat (map (\<lambda>key. memberRecords (the (map_of fs key)) (the (map_of gs key))
                    (keyPath basePath key))
       (filter (\<lambda>key. key \<in> set (map fst gs)) (map fst fs)))"
    by (subst deepCompare_members) (simp_all add: rem add commonKeys_def keys_def getProp_def)
next
  let ?g = "\<lambda>i.
      if i \<ge> length xs then [Change KindN (indexPath basePath i) None (Some (ys ! i))]
      else if i \<ge> length ys then [Change KindD (indexPath basePath i) (Some (xs ! i)) None]
      else deepCompare (xs ! i) (ys ! i) (indexPath basePath i)"
  let ?m = "min (length xs) (length ys)" and ?M = "max (length xs) (length ys)"
  have split: "[0..<?M] = [0..<?m] @ [?m..<?M]"
    by (metis le_add_diff_inverse max.cobounded1 min.cobounded1 le_trans upt_add_eq_append zero_le)
  have low: "map ?g [0..<?m] =
      map (\<lambda>i. deepCompare (xs ! i) (ys ! i) (indexPath basePath i)) [0..<?m]"
    by (rule map_cong) auto
  have high: "concat (map ?g [?m..<?M]) =
      map (\<lambda>i. Change KindD (indexPath basePath i) (Some (xs ! i)) None) [length ys..<length xs] @
      map (\<lambda>i. Change KindN (indexPath basePath i) None (Some (ys ! i))) [length xs..<length ys]"
  proof (cases "length xs \<le> length ys")
    case True
    have "concat (map ?g [length xs..<length ys]) =
        map (\<lambda>i. Change KindN (indexPath basePath i) None (Some (ys ! i))) [length xs..<length ys]"
      by (rule concat_map_single) simp
    with True show ?thesis by (simp add: min_def max_def)
  next
    case False
    have "concat (map ?g [length ys..<length xs]) =
        map (\<lambda>i. Change KindD (indexPath basePath i) (Some (xs ! i)) None) [length ys..<length xs]"
      by (rule concat_map_single) auto
    with False show ?thesis by (simp add: min_def max_def)
  qed
  show "deepCompare (JArr xs) (JArr ys) basePath =
     concat (map (\<lambda>i. deepCompare (xs ! i) (ys ! i) (indexPath basePath i))
       [0..<min (length xs) (length ys)]) @
     map (\<lambda>i. Change KindD (indexPath basePath i) (Some (xs ! i)) None) [length ys..<length xs] @
     map (\<lambda>i. Change KindN (indexPath basePath i) None (Some (ys ! i))) [length xs..<length ys]"
    by (subst deepCompare_elements, subst split) (simp only: map_append concat_append low high)
qed

section \<open>Properties of threeWayMerge\<close>

lemma foldl_push_when:
  "(\<And>acc x. f acc x = (if P x then acc @ [g x] else acc)) \<Longrightarrow>
     foldl f init xs = init @ map g (filter P xs)"
  by (induction xs arbitrary: init) auto

lemma findConflicts_filter:
  "findConflicts localChanges remoteChanges =
     filter (\<lambda>p. case map_of remoteChanges p of
                    Some remoteChange \<Rightarrow>
                      map_option (\<lambda>c. jsonCopy (ch_value c)) (map_of localChanges p) \<noteq>
                        Some (jsonCopy (ch_value remoteChange))
                  | None \<Rightarrow> inherited p)
       (map fst localChanges)"
  unfolding findConflicts_def
  by (subst foldl_push_when [where g = "\<lambda>p. p" and P = "\<lambda>p. case map_of remoteChanges p of
          Some remoteChange \<Rightarrow>
            map_option (\<lambda>c. jsonCopy (ch_value c)) (map_of localChanges p) \<noteq>
              Some (jsonCopy (ch_value remoteChange))
        | None \<Rightarrow> inherited p"])
     (auto split: option.splits)

lemma findConflicts_in_both:
  assumes "p \<in> set (findConflicts localChanges remoteChanges)" "\<not> inherited p"
  shows "\<exists>l r. map_of localChanges p = Some l \<and> map_of remoteChanges p = Some r"
proof -
  from assms have "p \<in> set (map fst localChanges)" and "map_of remoteChanges p \<noteq> None"
    by (auto simp: findConflicts_filter split: option.splits)
  moreover from \<open>p \<in> set (map fst localChanges)\<close> have "map_of localChanges p \<noteq> None"
    by (simp add: map_of_eq_None_iff)
  ultimately show ?thesis by auto
qed

text \<open>
  A conflict at an address that is not the name of an inherited property carries the
  values the address has in the two change sets.
\<close>

lemma threeWayMerge_conflict_values:
  assumes "threeWayMerge base local remote = Inr r"
    and "c \<in> set (conflicts r)" and "\<not> inherited (c_path c)"
  shows "\<exists>ls rs l r'.
           compareChanges base local = Inr ls \<and> compareChanges base remote = Inr rs \<and>
           map_of ls (c_path c) = Some l \<and> map_of rs (c_path c) = Some r' \<and>
           c_local c = Some (ch_value l) \<and> c_remote c = Some (ch_value r')"
proof -
  from assms(1) obtain ls rs where ls: "compareChanges base local = Inr ls"
    and rs: "compareChanges base remote = Inr rs"
    and "conflicts r =
      map (\<lambda>p. Conflict p (map_option ch_value (map_of ls p)) (map_option ch_value (map_of rs p)))
        (findConflicts ls rs)"
    by (auto simp: threeWayMerge_def Let_def split: json.splits sum.splits)
  with assms(2) obtain p where p: "p \<in> set (findConflicts ls rs)"
    and cp: "c = Conflict p (map_option ch_value (map_of ls p)) (map_option ch_value (map_of rs p))"
    by auto
  from cp assms(3) have "\<not> inherited p" by simp
  from findConflicts_in_both [OF p this] obtain l r'
    where "map_of ls p = Some l" "map_of rs p = Some r'" by blast
  with cp ls rs show ?thesis by simp
qed

text \<open>
  C6. For base \<^verbatim>\<open>{x:1}\<close>, local \<^verbatim>\<open>{x:2}\<close> and remote \<^verbatim>\<open>{x:3}\<close> the merge returns
  exactly one conflict, at \<^verbatim>\<open>x\<close> with local value 2 and remote value 3, and the merged
  tree keeps the base's \<^verbatim>\<open>x = 1\<close>.
\<close>

theorem threeWayMerge_conflict_example:
  "threeWayMerge (JObj [(''x'', JNum 1)]) (JObj [(''x'', JNum 2)]) (JObj [(''x'', JNum 3)]) =
     Inr (MergeResult (JObj [(''x'', JNum 1)]) [Conflict ''x'' (Some (JNum 2)) (Some (JNum 3))])"
  by code_simp

text \<open>
  C9. An address whose leaf is structurally equal on both sides should not be reported.
  \<^verbatim>\<open>compareChanges\<close> compares with \<^verbatim>\<open>!==\<close>, which for two arrays asks whether they are
  the same object: the array leaf \<^verbatim>\<open>[1]\<close> under \<^verbatim>\<open>a\<close>, equal on both sides, is
  reported as a change.
\<close>

theorem compareChanges_equal_array_reported:
  "compareChanges (JObj [(''a'', JArr [JNum 1])]) (JObj [(''a'', JArr [JNum 1])]) =
     Inr [(''a'', ChangeEntry (Own (JArr [JNum 1])) (JArr [JNum 1]))]"
  by code_simp

text \<open>
  C10. Every conflict should carry the local and the remote value. The test
  \<^verbatim>\<open>remoteChanges[path]\<close> is also passed by an address that the remote changes do not
  hold but every object inherits: with base \<^verbatim>\<open>{}\<close>, local \<^verbatim>\<open>{"constructor": 1}\<close> and
  remote \<^verbatim>\<open>{}\<close> the merge reports a conflict at \<^verbatim>\<open>constructor\<close> that has a local
  value and no remote value.
\<close>

theorem threeWayMerge_inherited_conflict:
  "threeWayMerge (JObj []) (JObj [(''constructor'', JNum 1)]) (JObj []) =
     Inr (MergeResult (JObj []) [Conflict ''constructor'' (Some (JNum 1)) None])"
  by code_simp

section \<open>Properties of applyPatch\<close>

text \<open>
  C4. An intermediate that is not a container should be replaced by an empty object, and no
  operation should raise. The walk tests \<^verbatim>\<open>!current[part]\<close> only: the number 5 under
  \<^verbatim>\<open>a\<close> passes the test, the walk steps into it and reads \<^verbatim>\<open>undefined\<close> under \<^verbatim>\<open>b\<close>,
  and the final assignment to a property of \<^verbatim>\<open>undefined\<close> throws. \<^verbatim>\<open>setValue\<close> of the
  merge module walks a path in the same way, tests \<^verbatim>\<open>typeof current[key] !== 'object'\<close>
  as well, and does replace the number.
\<close>

theorem applyPatch_scalar_intermediate_raises:
  "applyPatch (JObj [(''a'', JNum 5)]) [Patch OpAdd ''/a/b/c'' (Some (JNum 1))] = Inl TypeError \<and>
   setValue [(''a'', JNum 5)] ''a.b.c'' (JNum 1) =
     Inr [(''a'', JObj [(''b'', JObj [(''c'', JNum 1)])])]"
  by code_simp

section \<open>Properties of mergeJson\<close>

lemma mergeArrays_subset: "set arr2 \<subseteq> set arr1 \<Longrightarrow> mergeArrays arr1 arr2 = arr1"
  unfolding mergeArrays_def
  by (induction arr2 arbitrary: arr1) (auto simp: list_ex_iff)

lemma merge_self_aux:
  assumes "am = ArrConcatenate \<longrightarrow> list_all (\<lambda>kv. noMemberElements (snd kv)) s"
    and "list_all (\<lambda>kv. finiteNumbers (snd kv)) s"
  shows "distinct (map fst t) \<Longrightarrow> set s \<subseteq> set t \<Longrightarrow> list_all (\<lambda>(k, v). wf_json v) s \<Longrightarrow>
     merge Preserve am t s = Inr t"
  using assms
proof (induction s arbitrary: t
    rule: measure_induct_rule [where f = "size_list (size_prod (\<lambda>_. 0) size)"])
  case (less s)
  show ?case
  proof (cases s)
    case Nil
    then show ?thesis by simp
  next
    case (Cons kv s')
    obtain key sourceValue where kv: "kv = (key, sourceValue)" by (cases kv)
    from less.prems Cons kv have look: "map_of t key = Some sourceValue" by simp
    from less.prems Cons have "set s' \<subseteq> set t" "list_all (\<lambda>(k, v). wf_json v) s'"
      and "am = ArrConcatenate \<longrightarrow> list_all (\<lambda>kv. noMemberElements (snd kv)) s'"
      and "list_all (\<lambda>kv. finiteNumbers (snd kv)) s'"
      by auto
    with less.IH [of s' t] less.prems(1) Cons have tail: "merge Preserve am t s' = Inr t"
      by simp
    from less.prems(5) Cons kv have finite: "finiteNumbers sourceValue" by simp
    show ?thesis
    proof (cases sourceValue)
      case (JArr ys)
      from finite JArr have copy: "jsonCopy (JArr ys) = JArr ys"
        by (simp only: jsonCopy_finite)
      from JArr look have "AList.update key (JArr ys) t = t"
        and "AList.update key (JArr (mergeArrays ys ys)) t = t"
        by (simp_all add: mergeArrays_subset AList.update_triv)
      moreover from less.prems(4) Cons kv JArr have "am = ArrConcatenate \<longrightarrow> ys = []"
        by simp
      ultimately show ?thesis
        using JArr look tail Cons kv copy by (cases am) (simp_all del: jsonCopy.simps)
    next
      case (JObj sf)
      from less.prems(3) Cons kv JObj
      have wf: "distinct (map fst sf)" "list_all (\<lambda>(k, v). wf_json v) sf"
        by simp_all
      from less.prems(4) Cons kv JObj
      have stable: "am = ArrConcatenate \<longrightarrow> list_all (\<lambda>kv. noMemberElements (snd kv)) sf"
        by simp
      from finite JObj have members: "list_all (\<lambda>kv. finiteNumbers (snd kv)) sf"
        by simp
      from Cons kv JObj have "size_list (size_prod (\<lambda>_. 0) size) sf
          < size_list (size_prod (\<lambda>_. 0) size) s"
        by simp
      from less.IH [OF this wf(1) subset_refl wf(2) stable members]
      have inner: "merge Preserve am sf sf = Inr sf" .
      from look JObj have "AList.update key (JObj sf) t = t"
        by (simp add: AList.update_triv)
      with JObj look inner tail Cons kv show ?thesis by simp
    qed (use look tail Cons kv in \<open>simp_all add: valueTypeOf_def\<close>)
  qed
qed

text \<open>
  C8, as stated, fails for the array policy \<^verbatim>\<open>'concatenate'\<close>: the array member is
  appended to itself. It also fails, under every array policy, for a tree that holds
  \<^verbatim>\<open>Infinity\<close>: the copy of the target holds \<^verbatim>\<open>null\<close> in its place, of another type
  than the number of the source, which the strategy \<^verbatim>\<open>'preserve'\<close> then keeps.
\<close>

theorem mergeJson_self_concatenate_counterexample:
  "mergeJson (JObj [(''a'', JArr [JNum 1])]) (JObj [(''a'', JArr [JNum 1])]) Preserve ArrConcatenate =
     Inr (JObj [(''a'', JArr [JNum 1, JNum 1])]) \<and>
   mergeJson (JObj [(''a'', JInfinity)]) (JObj [(''a'', JInfinity)]) Preserve ArrOverwrite =
     Inr (JObj [(''a'', JNull)])"
  by code_simp

text \<open>
  C8, amended. For every object tree \<open>T\<close> that holds neither \<^verbatim>\<open>Infinity\<close> nor
  \<^verbatim>\<open>-Infinity\<close>, merging \<open>T\<close> with itself under the strategy \<^verbatim>\<open>'preserve'\<close> returns
  \<open>T\<close> when the array policy is \<^verbatim>\<open>'overwrite'\<close> or \<^verbatim>\<open>'merge'\<close>, and under
  \<^verbatim>\<open>'concatenate'\<close> when every array that is a member of an object of \<open>T\<close> is empty.
\<close>

theorem mergeJson_self_preserve:
  assumes "wf_json (JObj t)" and "finiteNumbers (JObj t)"
    and "am = ArrConcatenate \<longrightarrow> noMemberElements (JObj t)"
  shows "mergeJson (JObj t) (JObj t) Preserve am = Inr (JObj t)"
proof -
  from assms(2) have "jsonCopy (JObj t) = JObj t"
    by (rule jsonCopy_finite)
  moreover from assms have "merge Preserve am t t = Inr t"
    by (intro merge_self_aux) simp_all
  ultimately show ?thesis by (simp add: mergeJson_def del: jsonCopy.simps)
qed

theorem mergeJson_self_preserve_witness:
  "wf_json (JObj [(''a'', JArr [JNum 1, JNum 1]), (''b'', JObj [(''c'', JNull)])]) \<and>
   finiteNumbers (JObj [(''a'', JArr [JNum 1, JNum 1]), (''b'', JObj [(''c'', JNull)])]) \<and>
   mergeJson (JObj [(''a'', JArr [JNum 1, JNum 1]), (''b'', JObj [(''c'', JNull)])])
     (JObj [(''a'', JArr [JNum 1, JNum 1]), (''b'', JObj [(''c'', JNull)])]) Preserve ArrMerge =
     Inr (JObj [(''a'', JArr [JNum 1, JNum 1]), (''b'', JObj [(''c'', JNull)])])"
proof -
  have wf: "wf_json (JObj [(''a'', JArr [JNum 1, JNum 1]), (''b'', JObj [(''c'', JNull)])])"
    by simp
  have finite: "finiteNumbers (JObj [(''a'', JArr [JNum 1, JNum 1]), (''b'', JObj [(''c'', JNull)])])"
    by simp
  from mergeJson_self_preserve [OF wf finite, of ArrMerge] wf finite show ?thesis
    by simp
qed

section \<open>Properties of flattenObject and unflattenObject\<close>

lemma split_on_no_sep: "c \<notin> set k \<Longrightarrow> split_on c k = [k]"
  by (induction k) auto

lemma split_on_sep: "c \<notin> set k \<Longrightarrow> split_on c (k @ c # rest) = k # split_on c rest"
  by (induction k) auto

lemma split_dotted: "ks \<noteq> [] \<Longrightarrow> list_all dotFree ks \<Longrightarrow> split_on CHR ''.'' (dotted ks) = ks"
  by (induction ks rule: dotted.induct) (auto simp: dotFree_def split_on_no_sep split_on_sep)

lemma dotted_snoc: "ks \<noteq> [] \<Longrightarrow> dotted (ks @ [k]) = dotted ks @ CHR ''.'' # k"
  by (induction ks rule: dotted.induct) auto

lemma dotted_eq_Nil: "list_all dotFree ks \<Longrightarrow> dotted ks = [] \<longleftrightarrow> ks = []"
  by (induction ks rule: dotted.induct) (auto simp: dotFree_def)

lemma keyPath_dotted: "list_all dotFree ks \<Longrightarrow> keyPath (dotted ks) k = dotted (ks @ [k])"
  by (cases "ks = []") (auto simp: keyPath_def dotted_snoc dotted_eq_Nil)

lemma dotted_inj:
  assumes "list_all dotFree ks" "list_all dotFree ks'" "dotted ks = dotted ks'"
  shows "ks = ks'"
proof (cases "ks = [] \<or> ks' = []")
  case True
  with assms show ?thesis by (metis dotted_eq_Nil)
next
  case False
  with assms show ?thesis by (metis split_dotted)
qed

lemma distinct_fst_tail:
  assumes "distinct (map fst (kv # rest))" "kv' \<in> set rest"
  shows "fst kv' \<noteq> fst kv"
proof -
  from assms(1) have "fst kv \<notin> fst ` set rest" by simp
  moreover from assms(2) have "fst kv' \<in> fst ` set rest" by (rule imageI)
  ultimately show ?thesis by metis
qed

lemma update_fresh: "k \<notin> fst ` set al \<Longrightarrow> AList.update k v al = al @ [(k, v)]"
  by (induction al) auto

lemma leaves_good:
  "objectTree dotFree v \<Longrightarrow> e \<in> set (leaves v) \<Longrightarrow> list_all dotFree (fst e)"
proof (induction v arbitrary: e rule: leaves.induct)
  case (1 fs)
  from "1.prems"(2) obtain kv e' where kv: "kv \<in> set fs" and e': "e' \<in> set (leaves (snd kv))"
    and e: "e = (fst kv # fst e', snd e')"
    by auto
  from "1.prems"(1) kv have "dotFree (fst kv)" "objectTree dotFree (snd kv)"
    by (auto simp: list_all_iff)
  with "1.IH" [OF kv _ e'] e show ?case by simp
qed auto

lemma flatten_leaf:
  assumes "\<And>fs. v \<noteq> JObj fs"
  shows "flatten result v p = AList.update p v result"
  using assms by (cases v) auto

lemma leaves_leaf:
  assumes "\<And>fs. v \<noteq> JObj fs"
  shows "leaves v = [([], v)]"
  using assms by (cases v) auto

lemma flatten_fields:
  assumes "distinct (map fst fs)"
    and "list_all (\<lambda>kv. dotFree (fst kv) \<and> objectTree dotFree (snd kv)) fs"
    and "list_all dotFree pre"
    and "list_all (\<lambda>e. list_all dotFree (fst e)) R"
    and "\<forall>kv \<in> set fs. \<forall>e \<in> set R. \<not> prefix (pre @ [fst kv]) (fst e)"
  shows "foldl (\<lambda>result kv. flatten result (snd kv) (keyPath (dotted pre) (fst kv))) (map dot R) fs =
     map dot (R @ map (\<lambda>e. (pre @ fst e, snd e)) (leaves (JObj fs)))"
  using assms
proof (induction fs arbitrary: pre R
    rule: measure_induct_rule [where f = "size_list (size_prod (\<lambda>_. 0) size)"])
  case (less fs)
  show ?case
  proof (cases fs)
    case Nil
    then show ?thesis by simp
  next
    case (Cons kv rest)
    let ?pre = "pre @ [fst kv]"
    let ?added = "map (\<lambda>e. (?pre @ fst e, snd e)) (leaves (snd kv))"
    from less.prems(2) Cons have kv: "dotFree (fst kv)" "objectTree dotFree (snd kv)"
      by simp_all
    with less.prems(3) have pre': "list_all dotFree ?pre" by simp
    have path: "keyPath (dotted pre) (fst kv) = dotted ?pre"
      using less.prems(3) by (rule keyPath_dotted)
    have member: "flatten (map dot R) (snd kv) (dotted ?pre) = map dot (R @ ?added)"
    proof (cases "\<exists>cf. snd kv = JObj cf")
      case True
      then obtain cf where cf: "snd kv = JObj cf" ..
      with Cons have small: "size_list (size_prod (\<lambda>_. 0) size) cf
          < size_list (size_prod (\<lambda>_. 0) size) fs"
        by (cases kv) simp
      from kv(2) cf have good: "distinct (map fst cf)"
        "list_all (\<lambda>kv. dotFree (fst kv) \<and> objectTree dotFree (snd kv)) cf"
        by simp_all
      have fresh: "\<forall>kv' \<in> set cf. \<forall>e \<in> set R. \<not> prefix (?pre @ [fst kv']) (fst e)"
      proof (intro ballI notI)
        fix kv' e assume "e \<in> set R" and "prefix (?pre @ [fst kv']) (fst e)"
        then have "e \<in> set R" and "prefix ?pre (fst e)"
          using append_prefixD [of ?pre "[fst kv']" "fst e"] by simp_all
        with less.prems(5) Cons show False by auto
      qed
      from less.IH [OF small good pre' less.prems(4) fresh] cf show ?thesis
        by simp
    next
      case False
      then have leaf: "\<And>cf. snd kv \<noteq> JObj cf" by simp
      have "dotted ?pre \<notin> fst ` set (map dot R)"
      proof
        assume "dotted ?pre \<in> fst ` set (map dot R)"
        then obtain e where e: "e \<in> set R" and "dotted ?pre = dotted (fst e)"
          by (auto simp: dot_def)
        moreover from less.prems(4) e have "list_all dotFree (fst e)"
          by (simp add: list_all_iff)
        ultimately have "fst e = ?pre" using pre' by (metis dotted_inj)
        with less.prems(5) Cons e show False by auto
      qed
      then show ?thesis
        by (simp add: flatten_leaf [OF leaf] leaves_leaf [OF leaf] update_fresh dot_def)
    qed
    from Cons have small: "size_list (size_prod (\<lambda>_. 0) size) rest
        < size_list (size_prod (\<lambda>_. 0) size) fs"
      by simp
    from less.prems(1,2) Cons have good: "distinct (map fst rest)"
      "list_all (\<lambda>kv. dotFree (fst kv) \<and> objectTree dotFree (snd kv)) rest"
      by simp_all
    have R': "list_all (\<lambda>e. list_all dotFree (fst e)) (R @ ?added)"
      using less.prems(4) pre' leaves_good [OF kv(2)] by (auto simp: list_all_iff)
    have fresh: "\<forall>kv' \<in> set rest. \<forall>e \<in> set (R @ ?added). \<not> prefix (pre @ [fst kv']) (fst e)"
    proof (intro ballI)
      fix kv' e assume kv': "kv' \<in> set rest" and e: "e \<in> set (R @ ?added)"
      from less.prems(1) Cons kv' have ne: "fst kv' \<noteq> fst kv"
        by (simp add: distinct_fst_tail)
      show "\<not> prefix (pre @ [fst kv']) (fst e)"
      proof (cases "e \<in> set R")
        case True
        with less.prems(5) Cons kv' show ?thesis by auto
      next
        case False
        with e obtain e' where "fst e = pre @ fst kv # fst e'" by auto
        with ne show ?thesis by simp
      qed
    qed
    from less.IH [OF small good less.prems(3) R' fresh] member path Cons show ?thesis
      by simp
  qed
qed

lemma dotted_not_proto:
  assumes "list_all dotFree ks"
  shows "dotted ks \<noteq> ''__proto__''"
proof
  assume eq: "dotted ks = ''__proto__''"
  with assms have "ks \<noteq> []" by auto
  from split_dotted [OF this assms] eq have "ks = split_on CHR ''.'' ''__proto__''"
    by simp
  also have "\<dots> = [''__proto__'']" by (simp add: split_on_no_sep)
  finally show False using assms by (simp add: dotFree_def)
qed

lemma flattenObject_leaves:
  assumes "objectTree dotFree (JObj fs)"
  shows "flattenObject (JObj fs) = Inr (map dot (leaves (JObj fs)))"
proof -
  from flatten_fields [of fs "[]" "[]"] assms
  have flat: "flatten [] (JObj fs) [] = map dot (leaves (JObj fs))"
    by simp
  have "''__proto__'' \<notin> set (map fst (map dot (leaves (JObj fs))))"
    using leaves_good [OF assms] dotted_not_proto by (fastforce simp: dot_def)
  with flat show ?thesis by (simp add: flattenObject_def)
qed

lemma unflattenFrom_dotted:
  "list_all (\<lambda>e. fst e \<noteq> [] \<and> list_all dotFree (fst e)) es \<Longrightarrow>
     unflattenFrom result (map dot es) = assignAll result es"
  by (induction es arbitrary: result) (auto simp: dot_def split_dotted split: sum.splits)

lemma assignAll_append:
  "assignAll result (es @ es') =
     (case assignAll result es of Inl err \<Rightarrow> Inl err | Inr result' \<Rightarrow> assignAll result' es')"
  by (induction es arbitrary: result) (auto split: sum.splits)

lemma assignPath_into_object:
  assumes "map_of current key = Some (JObj child)" "rest \<noteq> []"
  shows "assignPath current (key # rest) v =
     (case assignPath child rest v of
        Inl err \<Rightarrow> Inl err
      | Inr c \<Rightarrow> Inr (AList.update key (JObj c) current))"
  using assms by (cases rest) simp_all

lemma assignPath_into_missing:
  assumes "map_of current key = None" "rest \<noteq> []" "key \<noteq> ''__proto__''"
  shows "assignPath current (key # rest) v =
     (case assignPath [] rest v of
        Inl err \<Rightarrow> Inl err
      | Inr c \<Rightarrow> Inr (AList.update key (JObj c) current))"
  using assms by (cases rest) simp_all

lemma assignAll_under_key:
  assumes "map_of current key = Some (JObj child)"
    and "list_all (\<lambda>e. fst e \<noteq> []) es"
    and "assignAll child es = Inr c"
  shows "assignAll current (map (\<lambda>e. (key # fst e, snd e)) es) =
     Inr (AList.update key (JObj c) current)"
  using assms
proof (induction es arbitrary: current child)
  case Nil
  then show ?case by (simp add: AList.update_triv)
next
  case (Cons e es)
  from Cons.prems(3) obtain c1 where c1: "assignPath child (fst e) (snd e) = Inr c1"
    and rest: "assignAll c1 es = Inr c"
    by (auto split: sum.splits)
  let ?current = "AList.update key (JObj c1) current"
  from Cons.prems(1,2) c1
  have step: "assignPath current (key # fst e) (snd e) = Inr ?current"
    by (simp add: assignPath_into_object)
  have "map_of ?current key = Some (JObj c1)"
    by (simp add: AList.update_conv')
  from Cons.IH [OF this _ rest] Cons.prems(2)
  have "assignAll ?current (map (\<lambda>e. (key # fst e, snd e)) es) =
      Inr (AList.update key (JObj c) current)"
    by simp
  with step show ?case by simp
qed

lemma assignAll_new_key:
  assumes "key \<notin> fst ` set current" and "key \<noteq> ''__proto__''"
    and "list_all (\<lambda>e. fst e \<noteq> []) es" and "es \<noteq> []"
    and "assignAll [] es = Inr c"
  shows "assignAll current (map (\<lambda>e. (key # fst e, snd e)) es) = Inr (current @ [(key, JObj c)])"
proof -
  from assms(4) obtain e es' where es: "es = e # es'" by (cases es) auto
  from assms(5) es obtain c1 where c1: "assignPath [] (fst e) (snd e) = Inr c1"
    and rest: "assignAll c1 es' = Inr c"
    by (auto split: sum.splits)
  let ?current = "AList.update key (JObj c1) current"
  from assms(1) have none: "map_of current key = None"
    by (simp add: map_of_eq_None_iff)
  with assms(2,3) es c1
  have step: "assignPath current (key # fst e) (snd e) = Inr ?current"
    by (simp add: assignPath_into_missing)
  have "map_of ?current key = Some (JObj c1)"
    by (simp add: AList.update_conv')
  from assignAll_under_key [OF this _ rest] assms(3) es
  have "assignAll ?current (map (\<lambda>e. (key # fst e, snd e)) es') =
      Inr (AList.update key (JObj c) current)"
    by simp
  with step es assms(1) show ?thesis by (simp add: update_fresh)
qed

lemma leaves_nonempty: "noEmptyObject v \<Longrightarrow> leaves v \<noteq> []"
proof (induction v rule: leaves.induct)
  case (1 fs)
  then obtain kv rest where fs: "fs = kv # rest" by (cases fs) auto
  with 1 show ?case by (auto simp: list_all_iff)
qed auto

lemma leaves_fields_paths: "list_all (\<lambda>e. fst e \<noteq> []) (leaves (JObj fs))"
  by (auto simp: list_all_iff)

lemma assignAll_leaves:
  assumes "distinct (map fst fs)"
    and "list_all (\<lambda>kv. dotFree (fst kv) \<and> objectTree dotFree (snd kv) \<and> noEmptyObject (snd kv)) fs"
    and "fst ` set fs \<inter> fst ` set current = {}"
  shows "assignAll current (leaves (JObj fs)) = Inr (current @ fs)"
  using assms
proof (induction fs arbitrary: current
    rule: measure_induct_rule [where f = "size_list (size_prod (\<lambda>_. 0) size)"])
  case (less fs)
  show ?case
  proof (cases fs)
    case Nil
    then show ?thesis by simp
  next
    case (Cons kv rest)
    obtain key v where kv: "kv = (key, v)" by (cases kv)
    from less.prems(3) Cons kv have new: "key \<notin> fst ` set current" by auto
    from less.prems(2) Cons kv have v: "objectTree dotFree v" "noEmptyObject v"
      and "dotFree key"
      by simp_all
    then have key: "key \<noteq> ''__proto__''" by (simp add: dotFree_def)
    have member: "assignAll current (map (\<lambda>e. (key # fst e, snd e)) (leaves v)) =
        Inr (current @ [(key, v)])"
    proof (cases "\<exists>cf. v = JObj cf")
      case True
      then obtain cf where cf: "v = JObj cf" ..
      with Cons kv have small: "size_list (size_prod (\<lambda>_. 0) size) cf
          < size_list (size_prod (\<lambda>_. 0) size) fs"
        by simp
      from v cf have good: "distinct (map fst cf)"
        "list_all (\<lambda>kv. dotFree (fst kv) \<and> objectTree dotFree (snd kv) \<and> noEmptyObject (snd kv)) cf"
        by (simp_all add: list_all_iff)
      from less.IH [OF small good, of "[]"] have "assignAll [] (leaves (JObj cf)) = Inr cf"
        by simp
      from assignAll_new_key [OF new key leaves_fields_paths _ this] v(2) cf leaves_nonempty [of v]
      show ?thesis by simp
    next
      case False
      then have "leaves v = [([], v)]" by (simp add: leaves_leaf)
      with new key show ?thesis by (simp add: update_fresh assignProp_def)
    qed
    from Cons have small: "size_list (size_prod (\<lambda>_. 0) size) rest
        < size_list (size_prod (\<lambda>_. 0) size) fs"
      by simp
    from less.prems(1,2) Cons have good: "distinct (map fst rest)"
      "list_all (\<lambda>kv. dotFree (fst kv) \<and> objectTree dotFree (snd kv) \<and> noEmptyObject (snd kv)) rest"
      by simp_all
    from less.prems(1,3) Cons kv
    have "fst ` set rest \<inter> fst ` set (current @ [(key, v)]) = {}"
      by auto
    from less.IH [OF small good this] member Cons kv show ?thesis
      by (simp add: assignAll_append)
  qed
qed

text \<open>
  C7, as stated, fails on object trees without arrays: an empty nested object has no
  address in the flattening and is lost, a key holding a dot is split into two levels, and
  an empty key above an object vanishes from the address.
\<close>

theorem unflatten_flatten_counterexample:
  "flattenObject (JObj [(''a'', JObj [])]) = Inr [] \<and>
   unflattenObject [] = Inr (JObj []) \<and>
   flattenObject (JObj [(''a.b'', JNum 1)]) = Inr [(''a.b'', JNum 1)] \<and>
   unflattenObject [(''a.b'', JNum 1)] = Inr (JObj [(''a'', JObj [(''b'', JNum 1)])]) \<and>
   flattenObject (JObj [([], JObj [(''a'', JNum 1)])]) = Inr [(''a'', JNum 1)] \<and>
   unflattenObject [(''a'', JNum 1)] = Inr (JObj [(''a'', JNum 1)])"
  by code_simp

text \<open>
  C7, amended. For every object tree \<open>T\<close> without arrays in which no nested object is
  empty and every key is non-empty, holds no dot and is not \<^verbatim>\<open>__proto__\<close>,
  \<^verbatim>\<open>unflattenObject(flattenObject(T))\<close> is \<open>T\<close>.
\<close>

theorem unflatten_flatten:
  assumes "objectTree dotFree (JObj fs)"
    and "list_all (\<lambda>kv. noEmptyObject (snd kv)) fs"
  shows "\<exists>flat. flattenObject (JObj fs) = Inr flat \<and> unflattenObject flat = Inr (JObj fs)"
proof -
  from assms(1) have good: "list_all (\<lambda>e. fst e \<noteq> [] \<and> list_all dotFree (fst e)) (leaves (JObj fs))"
    using leaves_good [OF assms(1)] leaves_fields_paths [of fs] by (simp add: list_all_iff)
  from assms
  have "list_all (\<lambda>kv. dotFree (fst kv) \<and> objectTree dotFree (snd kv) \<and> noEmptyObject (snd kv)) fs"
    by (simp add: list_all_iff)
  with assms(1) have "assignAll [] (leaves (JObj fs)) = Inr ([] @ fs)"
    by (intro assignAll_leaves) simp_all
  with good have "unflattenObject (map dot (leaves (JObj fs))) = Inr (JObj fs)"
    by (simp add: unflattenObject_def unflattenFrom_dotted)
  with flattenObject_leaves [OF assms(1)] show ?thesis by blast
qed

theorem unflatten_flatten_witness:
  "objectTree dotFree (JObj [(''a'', JObj [(''b'', JNum 1), (''c'', JObj [(''d'', JNull)])]), (''e'', JStr ''x'')]) \<and>
   list_all (\<lambda>kv. noEmptyObject (snd kv))
     [(''a'', JObj [(''b'', JNum 1), (''c'', JObj [(''d'', JNull)])]), (''e'', JStr ''x'')] \<and>
   (\<exists>flat. flattenObject
      (JObj [(''a'', JObj [(''b'', JNum 1), (''c'', JObj [(''d'', JNull)])]), (''e'', JStr ''x'')]) = Inr flat \<and>
     unflattenObject flat =
       Inr (JObj [(''a'', JObj [(''b'', JNum 1), (''c'', JObj [(''d'', JNull)])]), (''e'', JStr ''x'')])) \<and>
   flattenObject
      (JObj [(''a'', JObj [(''b'', JNum 1), (''c'', JObj [(''d'', JNull)])]), (''e'', JStr ''x'')]) =
     Inr [(''a.b'', JNum 1), (''a.c.d'', JNull), (''e'', JStr ''x'')]"
proof -
  have tree: "objectTree dotFree
      (JObj [(''a'', JObj [(''b'', JNum 1), (''c'', JObj [(''d'', JNull)])]), (''e'', JStr ''x'')])"
    by (simp add: dotFree_def)
  have members: "list_all (\<lambda>kv. noEmptyObject (snd kv))
      [(''a'', JObj [(''b'', JNum 1), (''c'', JObj [(''d'', JNull)])]), (''e'', JStr ''x'')]"
    by simp
  have flat: "flattenObject
      (JObj [(''a'', JObj [(''b'', JNum 1), (''c'', JObj [(''d'', JNull)])]), (''e'', JStr ''x'')]) =
     Inr [(''a.b'', JNum 1), (''a.c.d'', JNull), (''e'', JStr ''x'')]"
    by code_simp
  from unflatten_flatten [OF tree members] tree members flat show ?thesis
    by blast
qed

section \<open>Properties of applyPatch after generatePatch and deepCompare\<close>

lemma structEq_refl: "structEq v v"
proof (induction v)
  case (JArr xs)
  then show ?case by (auto simp: list_all_iff)
next
  case (JObj fs)
  have "structEq (the (map_of fs k)) (the (map_of fs k))" if "k \<in> set (map fst fs)" for k
  proof -
    from that obtain v where v: "map_of fs k = Some v"
      by (metis map_of_eq_None_iff option.exhaust set_map)
    then have "(k, v) \<in> set fs" by (rule map_of_SomeD)
    with JObj [of "(k, v)" v] v show ?thesis by simp
  qed
  then show ?case by (simp add: list_all_iff)
qed simp_all

lemma plainKey_dotFree: "plainKey k \<Longrightarrow> dotFree k"
  by (simp add: plainKey_def)

lemma plainKeys_dotFree: "list_all plainKey ks \<Longrightarrow> list_all dotFree ks"
  by (simp add: list_all_iff plainKey_dotFree)

lemma split_slashed:
  "ks \<noteq> [] \<Longrightarrow> list_all plainKey ks \<Longrightarrow>
     split_on CHR ''/'' (map (\<lambda>c. if c = CHR ''.'' then CHR ''/'' else c) (dotted ks)) = ks"
proof (induction ks rule: dotted.induct)
  case (2 k)
  then have "map (\<lambda>c. if c = CHR ''.'' then CHR ''/'' else c) k = k"
    by (auto simp: plainKey_def dotFree_def intro: map_idI)
  with 2 show ?case by (simp add: plainKey_def dotFree_def split_on_no_sep)
next
  case (3 k k' ks)
  then have "map (\<lambda>c. if c = CHR ''.'' then CHR ''/'' else c) k = k"
    by (auto simp: plainKey_def dotFree_def intro: map_idI)
  with 3 show ?case by (simp add: plainKey_def dotFree_def split_on_sep)
qed simp

lemma pathParts_patchPath:
  assumes "ks \<noteq> []" "list_all plainKey ks"
  shows "pathParts (patchPath (dotted ks)) = ks"
proof -
  from assms have "dotted ks \<noteq> []"
    by (simp add: dotted_eq_Nil plainKeys_dotFree)
  moreover from assms(2) have "filter (\<lambda>part. part \<noteq> []) ks = ks"
    by (auto simp: list_all_iff plainKey_def dotFree_def)
  ultimately show ?thesis
    using assms by (simp add: pathParts_def patchPath_def split_slashed)
qed

lemma applyAll_kapply:
  "list_all (\<lambda>(opn, ks, v). ks \<noteq> [] \<and> list_all plainKey ks) ops \<Longrightarrow>
     applyAll t (map (toPatch []) ops) = kapply t ops"
  by (induction ops arbitrary: t)
     (auto simp: toPatch_def applyOne_def pathParts_patchPath split: sum.splits)

lemma objectTree_member:
  assumes "objectTree ok obj" "k \<in> set (keys obj)"
  shows "ok k \<and> objectTree ok (getProp obj k)"
proof (cases obj)
  case (JObj fs)
  with assms(2) obtain v where v: "map_of fs k = Some v"
    by (metis entries.simps(1) keys_def map_of_eq_None_iff option.exhaust set_map)
  then have "(k, v) \<in> set fs" by (rule map_of_SomeD)
  with assms(1) JObj have "ok k \<and> objectTree ok v" by (auto simp: list_all_iff)
  with v JObj show ?thesis by (simp add: getProp_def)
qed (use assms in \<open>auto simp: keys_def\<close>)

lemma objectTree_typeof:
  assumes "objectTree ok v"
  shows "(typeof v = TObject \<and> v \<noteq> JNull) = isObj v"
  using assms by (cases v) auto

lemma generatePatch_append: "generatePatch (xs @ ys) = generatePatch xs @ generatePatch ys"
  by (simp add: generatePatch_def)

lemma generatePatch_concat: "generatePatch (concat xss) = concat (map generatePatch xss)"
  by (induction xss) (simp_all add: generatePatch_def)

lemma toPatch_under: "toPatch pre (under k e) = toPatch (pre @ [k]) e"
  by (cases e) (simp add: toPatch_def under_def)

lemma generatePatch_kdiff:
  assumes "isObj obj1" "isObj obj2" "objectTree plainKey obj1" "objectTree plainKey obj2"
    and "list_all plainKey pre"
  shows "generatePatch (deepCompare obj1 obj2 (dotted pre)) = map (toPatch pre) (kdiff obj1 obj2)"
  using assms
proof (induction obj1 obj2 arbitrary: pre rule: kdiff.induct)
  case (1 obj1 obj2)
  have path: "keyPath (dotted pre) k = dotted (pre @ [k])" for k
    using "1.prems"(5) by (simp add: keyPath_dotted plainKeys_dotFree)
  from "1.prems"(1,2) have shape: "typeof obj1 = TObject" "typeof obj2 = TObject"
    "obj1 \<noteq> JNull" "obj2 \<noteq> JNull" "\<not> (isArray obj1 \<and> isArray obj2)"
    by (cases obj1; cases obj2; simp)+
  have removed: "generatePatch (removedRecords obj1 obj2 (dotted pre)) =
      map (toPatch pre) (map (\<lambda>k. (OpRemove, [k], None))
        (filter (\<lambda>k. k \<notin> set (keys obj2)) (keys obj1)))"
    by (simp add: generatePatch_def removedRecords_def toPatch_def path)
  have added: "generatePatch (addedRecords obj1 obj2 (dotted pre)) =
      map (toPatch pre) (map (\<lambda>k. (OpAdd, [k], Some (getProp obj2 k)))
        (filter (\<lambda>k. k \<notin> set (keys obj1)) (keys obj2)))"
    by (simp add: generatePatch_def addedRecords_def toPatch_def path)
  have member: "generatePatch (memberRecords (getProp obj1 k) (getProp obj2 k) (keyPath (dotted pre) k)) =
      map (toPatch pre)
        (if isObj (getProp obj1 k) \<and> isObj (getProp obj2 k) then
           map (under k) (kdiff (getProp obj1 k) (getProp obj2 k))
         else if jsonCopy (getProp obj1 k) \<noteq> jsonCopy (getProp obj2 k) then
           [(OpReplace, [k], Some (getProp obj2 k))]
         else [])"
    if k: "k \<in> set (commonKeys obj1 obj2)" for k
  proof -
    from k have k1: "k \<in> set (keys obj1)" and k2: "k \<in> set (keys obj2)"
      by (simp_all add: commonKeys_def)
    from objectTree_member [OF "1.prems"(3) k1] objectTree_member [OF "1.prems"(4) k2]
    have good: "plainKey k" "objectTree plainKey (getProp obj1 k)" "objectTree plainKey (getProp obj2 k)"
      by simp_all
    have eq: "(typeof (getProp obj1 k) = TObject \<and> typeof (getProp obj2 k) = TObject \<and>
        getProp obj1 k \<noteq> JNull \<and> getProp obj2 k \<noteq> JNull) =
        (isObj (getProp obj1 k) \<and> isObj (getProp obj2 k))"
      using objectTree_typeof [OF good(2)] objectTree_typeof [OF good(3)] by blast
    show ?thesis
    proof (cases "isObj (getProp obj1 k) \<and> isObj (getProp obj2 k)")
      case True
      with "1.prems"(5) good(1)
      have "generatePatch (deepCompare (getProp obj1 k) (getProp obj2 k) (dotted (pre @ [k]))) =
          map (toPatch (pre @ [k])) (kdiff (getProp obj1 k) (getProp obj2 k))"
        by (intro "1.IH" [OF k] good) simp_all
      then have "generatePatch (deepCompare (getProp obj1 k) (getProp obj2 k) (keyPath (dotted pre) k)) =
          map (toPatch pre) (map (under k) (kdiff (getProp obj1 k) (getProp obj2 k)))"
        by (simp add: path toPatch_under cong: map_cong)
      then show ?thesis
        by (simp only: memberRecords_def eq if_P [OF True])
    next
      case False
      have "generatePatch
          (if jsonCopy (getProp obj1 k) \<noteq> jsonCopy (getProp obj2 k)
           then [Change KindE (keyPath (dotted pre) k) (Some (getProp obj1 k)) (Some (getProp obj2 k))]
           else []) =
          map (toPatch pre)
            (if jsonCopy (getProp obj1 k) \<noteq> jsonCopy (getProp obj2 k)
             then [(OpReplace, [k], Some (getProp obj2 k))]
             else [])"
        by (simp add: generatePatch_def toPatch_def path)
      then show ?thesis
        by (simp only: memberRecords_def eq if_not_P [OF False])
    qed
  qed
  show ?case
    by (subst deepCompare_members [OF shape], subst kdiff.simps)
       (simp add: generatePatch_append generatePatch_concat removed added member map_concat
          cong: map_cong)
qed

lemma kdiff_paths: "list_all (\<lambda>(opn, ks, v). ks \<noteq> []) (kdiff obj1 obj2)"
proof (induction obj1 obj2 rule: kdiff.induct)
  case (1 obj1 obj2)
  show ?case
    by (subst kdiff.simps) (auto simp: list_all_iff under_def dest: "1.IH")
qed

lemma kdiff_plain:
  assumes "objectTree plainKey obj1" "objectTree plainKey obj2"
  shows "list_all (\<lambda>(opn, ks, v). ks \<noteq> [] \<and> list_all plainKey ks) (kdiff obj1 obj2)"
  using assms
proof (induction obj1 obj2 rule: kdiff.induct)
  case (1 obj1 obj2)
  have "ks \<noteq> [] \<and> list_all plainKey ks"
    if "(opn, ks, v) \<in> set (kdiff (getProp obj1 k) (getProp obj2 k))"
      and "k \<in> set (commonKeys obj1 obj2)"
      and "isObj (getProp obj1 k)" "isObj (getProp obj2 k)" for opn ks v k
  proof -
    from that(2) have "k \<in> set (keys obj1)" "k \<in> set (keys obj2)"
      by (simp_all add: commonKeys_def)
    with "1.prems" have "objectTree plainKey (getProp obj1 k)" "objectTree plainKey (getProp obj2 k)"
      by (simp_all add: objectTree_member)
    from "1.IH" [OF that(2) _ this] that(1,3,4) show ?thesis
      by (auto simp: list_all_iff)
  qed
  moreover have "plainKey k" if "k \<in> set (keys obj1) \<or> k \<in> set (keys obj2)" for k
    using that "1.prems" objectTree_member by blast
  ultimately show ?case
    by (subst kdiff.simps) (auto simp: list_all_iff under_def commonKeys_def)
qed

lemma kapply_append:
  "kapply t (ops @ ops') =
     (case kapply t ops of Inl e \<Rightarrow> Inl e | Inr t' \<Rightarrow> kapply t' ops')"
  by (induction ops arbitrary: t) (auto split: sum.splits)

lemma kapply_removes:
  "kapply (JObj a) (map (\<lambda>k. (OpRemove, [k], None)) ks) =
     Inr (JObj (filter (\<lambda>kv. fst kv \<notin> set ks) a))"
proof (induction ks arbitrary: a)
  case (Cons k ks)
  have "filter (\<lambda>kv. fst kv \<notin> set ks) (AList.delete k a) =
      filter (\<lambda>kv. fst kv \<notin> set (k # ks)) a"
    by (auto simp: AList.delete_eq intro: filter_cong)
  with Cons show ?case by simp
qed simp

lemma kapply_adds:
  "distinct ks \<Longrightarrow> set ks \<inter> fst ` set a = {} \<Longrightarrow> ''__proto__'' \<notin> set ks \<Longrightarrow>
     kapply (JObj a) (map (\<lambda>k. (OpAdd, [k], Some (f k))) ks) =
       Inr (JObj (a @ map (\<lambda>k. (k, f k)) ks))"
proof (induction ks arbitrary: a)
  case (Cons k ks)
  from Cons.prems have "k \<noteq> ''__proto__''" by auto
  with Cons.prems have "assignProp a k (f k) = Inr (a @ [(k, f k)])"
    by (simp add: update_fresh assignProp_def)
  moreover from Cons.prems have "distinct ks" "set ks \<inter> fst ` set (a @ [(k, f k)]) = {}"
    "''__proto__'' \<notin> set ks"
    by auto
  ultimately show ?case using Cons.IH [of "a @ [(k, f k)]"] by simp
qed simp

lemma walk_object_result:
  assumes "walk (JObj fs) parts lastPart opn v = Inr c"
  shows "isObj c"
proof (cases parts)
  case Nil
  with assms show ?thesis by (cases opn; cases v) (auto split: sum.splits)
next
  case (Cons part rest)
  with assms show ?thesis by (auto simp: Let_def split: sum.splits if_splits)
qed

lemma kapply_object_result:
  "kapply t ops = Inr r \<Longrightarrow> isObj t \<Longrightarrow> isObj r"
proof (induction ops arbitrary: t)
  case (Cons e ops)
  obtain opn ks v where e: "e = (opn, ks, v)" by (cases e)
  from Cons.prems(2) obtain fs where t: "t = JObj fs" by (cases t) auto
  from Cons.prems(1) e obtain t' where t': "walk t (butlast ks) (last ks) opn v = Inr t'"
    and rest: "kapply t' ops = Inr r"
    by (auto split: sum.splits)
  from t' t have "isObj t'" by (auto dest: walk_object_result)
  with Cons.IH [OF rest] show ?case .
qed simp

lemma kapply_under:
  assumes "map_of fs k = Some (JObj child)"
    and "list_all (\<lambda>(opn, ks, v). ks \<noteq> []) ops"
    and "kapply (JObj child) ops = Inr (JObj c)"
  shows "kapply (JObj fs) (map (under k) ops) = Inr (JObj (AList.update k (JObj c) fs))"
  using assms
proof (induction ops arbitrary: fs child)
  case Nil
  then show ?case by (simp add: AList.update_triv)
next
  case (Cons e ops)
  obtain opn ks v where e: "e = (opn, ks, v)" by (cases e)
  from Cons.prems(2) e have ks: "ks \<noteq> []" by simp
  from Cons.prems(3) e obtain t' where t': "walk (JObj child) (butlast ks) (last ks) opn v = Inr t'"
    and rest: "kapply t' ops = Inr (JObj c)"
    by (auto split: sum.splits)
  from t' obtain child' where child': "t' = JObj child'"
    by (cases t') (auto dest: walk_object_result)
  let ?fs = "AList.update k (JObj child') fs"
  from ks Cons.prems(1) t' child'
  have step: "walk (JObj fs) (butlast (k # ks)) (last (k # ks)) opn v = Inr (JObj ?fs)"
    by (simp add: Let_def)
  have "map_of ?fs k = Some (JObj child')"
    by (simp add: AList.update_conv')
  from Cons.IH [OF this _ rest [unfolded child']] Cons.prems(2)
  have "kapply (JObj ?fs) (map (under k) ops) = Inr (JObj (AList.update k (JObj c) fs))"
    by simp
  with step e show ?case by (simp add: under_def)
qed

lemma kapply_member:
  assumes "map_of cur k = Some (getProp obj1 k)"
    and "isObj (getProp obj1 k) \<and> isObj (getProp obj2 k) \<longrightarrow>
      (\<exists>r. kapply (getProp obj1 k) (kdiff (getProp obj1 k) (getProp obj2 k)) = Inr r \<and>
        wf_json r \<and> structEq r (getProp obj2 k))"
    and "wf_json (getProp obj2 k)"
    and "finiteNumbers (getProp obj1 k) \<and> finiteNumbers (getProp obj2 k)"
  shows "\<exists>w. kapply (JObj cur) (memberOps obj1 obj2 k) = Inr (JObj (AList.update k w cur)) \<and>
    wf_json w \<and> structEq w (getProp obj2 k)"
proof (cases "isObj (getProp obj1 k) \<and> isObj (getProp obj2 k)")
  case True
  with assms(2) obtain r
    where r: "kapply (getProp obj1 k) (kdiff (getProp obj1 k) (getProp obj2 k)) = Inr r"
      and eq: "wf_json r" "structEq r (getProp obj2 k)"
    by blast
  from True obtain child where child: "getProp obj1 k = JObj child"
    by (cases "getProp obj1 k") auto
  from r True have "isObj r" by (auto dest: kapply_object_result)
  then obtain c where c: "r = JObj c" by (cases r) auto
  from kapply_under [OF assms(1) [unfolded child] kdiff_paths r [unfolded child c]] True eq c child
  show ?thesis by (auto simp: memberOps_def)
next
  case False
  from assms(4) have copy: "jsonCopy (getProp obj1 k) = getProp obj1 k"
    "jsonCopy (getProp obj2 k) = getProp obj2 k"
    by (simp_all add: jsonCopy_finite)
  show ?thesis
  proof (cases "getProp obj1 k = getProp obj2 k")
    case True
    with assms(1) have "AList.update k (getProp obj2 k) cur = cur"
      by (simp add: AList.update_triv)
    with True False assms(3) show ?thesis
      by (auto simp: memberOps_def structEq_refl intro!: exI [of _ "getProp obj2 k"])
  next
    case ne: False
    from assms(1) have "assignProp cur k (getProp obj2 k) = Inr (AList.update k (getProp obj2 k) cur)"
      by (simp add: assignProp_def)
    with ne False assms(3) copy show ?thesis
      by (auto simp: memberOps_def structEq_refl intro!: exI [of _ "getProp obj2 k"])
  qed
qed

lemma kapply_members:
  assumes "distinct ks"
    and "\<forall>k \<in> set ks. map_of cur k = Some (getProp obj1 k)"
    and "\<forall>k \<in> set ks. isObj (getProp obj1 k) \<and> isObj (getProp obj2 k) \<longrightarrow>
      (\<exists>r. kapply (getProp obj1 k) (kdiff (getProp obj1 k) (getProp obj2 k)) = Inr r \<and>
        wf_json r \<and> structEq r (getProp obj2 k))"
    and "\<forall>k \<in> set ks. wf_json (getProp obj2 k)"
    and "\<forall>k \<in> set ks. finiteNumbers (getProp obj1 k) \<and> finiteNumbers (getProp obj2 k)"
  shows "\<exists>cur'. kapply (JObj cur) (concat (map (memberOps obj1 obj2) ks)) = Inr (JObj cur') \<and>
    map fst cur' = map fst cur \<and>
    (\<forall>k. k \<notin> set ks \<longrightarrow> map_of cur' k = map_of cur k) \<and>
    (\<forall>k \<in> set ks. \<exists>w. map_of cur' k = Some w \<and> wf_json w \<and> structEq w (getProp obj2 k))"
  using assms
proof (induction ks arbitrary: cur)
  case Nil
  then show ?case by simp
next
  case (Cons k ks)
  from Cons.prems(2) have look: "map_of cur k = Some (getProp obj1 k)" by simp
  from Cons.prems(3)
  have inner: "isObj (getProp obj1 k) \<and> isObj (getProp obj2 k) \<longrightarrow>
      (\<exists>r. kapply (getProp obj1 k) (kdiff (getProp obj1 k) (getProp obj2 k)) = Inr r \<and>
        wf_json r \<and> structEq r (getProp obj2 k))"
    by simp
  from Cons.prems(4) have wf2: "wf_json (getProp obj2 k)" by simp
  from Cons.prems(5) have "finiteNumbers (getProp obj1 k) \<and> finiteNumbers (getProp obj2 k)" by simp
  from kapply_member [OF look inner wf2 this] obtain w
    where step: "kapply (JObj cur) (memberOps obj1 obj2 k) = Inr (JObj (AList.update k w cur))"
      and w: "wf_json w" "structEq w (getProp obj2 k)"
    by blast
  let ?cur = "AList.update k w cur"
  from look have "k \<in> set (map fst cur)"
    by (metis map_of_eq_None_iff option.distinct(1) set_map)
  then have keys: "map fst ?cur = map fst cur"
    by (simp add: AList.update_keys)
  have other: "map_of ?cur k' = map_of cur k'" if "k' \<noteq> k" for k'
    using that by (simp add: AList.update_conv')
  have here: "map_of ?cur k = Some w"
    by (simp add: AList.update_conv')
  from Cons.prems(1) have "distinct ks" and out: "k \<notin> set ks" by simp_all
  moreover have "\<forall>k' \<in> set ks. map_of ?cur k' = Some (getProp obj1 k')"
  proof
    fix k' assume k': "k' \<in> set ks"
    with out have "k' \<noteq> k" by auto
    with Cons.prems(2) k' other [of k'] show "map_of ?cur k' = Some (getProp obj1 k')" by simp
  qed
  moreover from Cons.prems(3)
  have "\<forall>k \<in> set ks. isObj (getProp obj1 k) \<and> isObj (getProp obj2 k) \<longrightarrow>
      (\<exists>r. kapply (getProp obj1 k) (kdiff (getProp obj1 k) (getProp obj2 k)) = Inr r \<and>
        wf_json r \<and> structEq r (getProp obj2 k))"
    by simp
  moreover from Cons.prems(4) have "\<forall>k \<in> set ks. wf_json (getProp obj2 k)"
    by simp
  moreover from Cons.prems(5)
  have "\<forall>k \<in> set ks. finiteNumbers (getProp obj1 k) \<and> finiteNumbers (getProp obj2 k)"
    by simp
  ultimately obtain cur'
    where rest: "kapply (JObj ?cur) (concat (map (memberOps obj1 obj2) ks)) = Inr (JObj cur')"
      and keys': "map fst cur' = map fst ?cur"
      and other': "\<forall>k'. k' \<notin> set ks \<longrightarrow> map_of cur' k' = map_of ?cur k'"
      and settled: "\<forall>k' \<in> set ks. \<exists>w. map_of cur' k' = Some w \<and> wf_json w \<and>
        structEq w (getProp obj2 k')"
    using Cons.IH [of ?cur] by blast
  have "kapply (JObj cur) (concat (map (memberOps obj1 obj2) (k # ks))) = Inr (JObj cur')"
    using step rest by (simp add: kapply_append)
  moreover have "map fst cur' = map fst cur"
    using keys keys' by simp
  moreover have "\<forall>k'. k' \<notin> set (k # ks) \<longrightarrow> map_of cur' k' = map_of cur k'"
    using other other' by simp
  moreover have "\<forall>k' \<in> set (k # ks). \<exists>w. map_of cur' k' = Some w \<and> wf_json w \<and>
      structEq w (getProp obj2 k')"
    using settled other' out here w by auto
  ultimately show ?case by blast
qed

lemma objectTree_wf: "objectTree ok v \<Longrightarrow> wf_json v"
  by (induction v) (auto simp: list_all_iff)

lemma kdiff_phases:
  "kdiff obj1 obj2 =
     map (\<lambda>k. (OpRemove, [k], None)) (filter (\<lambda>k. k \<notin> set (keys obj2)) (keys obj1)) @
     map (\<lambda>k. (OpAdd, [k], Some (getProp obj2 k))) (filter (\<lambda>k. k \<notin> set (keys obj1)) (keys obj2)) @
     concat (map (memberOps obj1 obj2) (commonKeys obj1 obj2))"
proof -
  have "memberOps obj1 obj2 = (\<lambda>k.
      if isObj (getProp obj1 k) \<and> isObj (getProp obj2 k) then
        map (under k) (kdiff (getProp obj1 k) (getProp obj2 k))
      else if jsonCopy (getProp obj1 k) \<noteq> jsonCopy (getProp obj2 k) then
        [(OpReplace, [k], Some (getProp obj2 k))]
      else [])"
    by (rule ext) (simp add: memberOps_def)
  then show ?thesis by (subst kdiff.simps) simp
qed

lemma map_of_filter_fst:
  "map_of (filter (\<lambda>kv. P (fst kv)) fs) k = (if P k then map_of fs k else None)"
  by (induction fs) auto

lemma map_of_key_value: "k \<in> set ks \<Longrightarrow> map_of (map (\<lambda>k. (k, f k)) ks) k = Some (f k)"
  by (induction ks) auto

lemma map_of_the: "k \<in> set (map fst fs) \<Longrightarrow> map_of fs k = Some (the (map_of fs k))"
  by (metis map_of_eq_None_iff option.exhaust_sel set_map)

lemma kapply_kdiff:
  assumes "isObj obj1" "isObj obj2" "objectTree plainKey obj1" "objectTree plainKey obj2"
    and "finiteNumbers obj1" "finiteNumbers obj2"
  shows "\<exists>r. kapply obj1 (kdiff obj1 obj2) = Inr r \<and> wf_json r \<and> structEq r obj2"
  using assms
proof (induction obj1 obj2 rule: kdiff.induct)
  case (1 obj1 obj2)
  from "1.prems"(1,2) obtain a b where a: "obj1 = JObj a" and b: "obj2 = JObj b"
    by (cases obj1; cases obj2) auto
  from "1.prems"(3,4) a b have da: "distinct (map fst a)" and db: "distinct (map fst b)"
    by simp_all
  let ?inb = "\<lambda>k. k \<in> set (map fst b)"
  let ?rem = "filter (\<lambda>k. k \<notin> set (keys obj2)) (keys obj1)"
  let ?add = "filter (\<lambda>k. k \<notin> set (keys obj1)) (keys obj2)"
  let ?com = "commonKeys obj1 obj2"
  let ?a1 = "filter (\<lambda>kv. ?inb (fst kv)) a"
  let ?a2 = "?a1 @ map (\<lambda>k. (k, getProp obj2 k)) ?add"
  have k1: "keys obj1 = map fst a" and k2: "keys obj2 = map fst b"
    using a b by (simp_all add: keys_def)
  have com: "?com = filter ?inb (map fst a)"
    by (simp add: commonKeys_def k1 k2)
  have keys1: "map fst ?a1 = ?com"
    by (simp add: com filter_map comp_def)
  have "filter (\<lambda>kv. fst kv \<notin> set ?rem) a = ?a1"
    by (rule filter_cong) (auto simp: k1 k2)
  then have step1: "kapply obj1 (map (\<lambda>k. (OpRemove, [k], None)) ?rem) = Inr (JObj ?a1)"
    using kapply_removes [of a ?rem] a by simp
  have "distinct ?add" using db by (simp add: k2)
  moreover have "set ?add \<inter> fst ` set ?a1 = {}"
    by (auto simp: k1 k2)
  moreover have "''__proto__'' \<notin> set ?add"
  proof
    assume "''__proto__'' \<in> set ?add"
    then have "''__proto__'' \<in> set (keys obj2)" by simp
    with "1.prems"(4) have "plainKey ''__proto__''" by (blast dest: objectTree_member)
    then show False by (simp add: plainKey_def dotFree_def)
  qed
  ultimately
  have step2: "kapply (JObj ?a1) (map (\<lambda>k. (OpAdd, [k], Some (getProp obj2 k))) ?add) = Inr (JObj ?a2)"
    by (rule kapply_adds)
  have look: "map_of ?a2 k = Some (getProp obj1 k)" if "k \<in> set ?com" for k
  proof -
    from that have ka: "k \<in> set (map fst a)" and kb: "?inb k" by (simp_all add: com)
    have "map_of ?a1 k = (if ?inb k then map_of a k else None)"
      by (rule map_of_filter_fst)
    with kb map_of_the [OF ka] have "map_of ?a1 k = Some (getProp obj1 k)"
      by (simp add: getProp_def a)
    then show ?thesis by (simp add: map_add_Some_iff)
  qed
  have members2: "wf_json (getProp obj2 k)" if "k \<in> set ?com" for k
  proof -
    from that have "k \<in> set (keys obj2)" by (simp add: commonKeys_def)
    with "1.prems"(4) show ?thesis by (blast intro: objectTree_wf dest: objectTree_member)
  qed
  have inner: "\<exists>r. kapply (getProp obj1 k) (kdiff (getProp obj1 k) (getProp obj2 k)) = Inr r \<and>
      wf_json r \<and> structEq r (getProp obj2 k)"
    if "k \<in> set ?com" "isObj (getProp obj1 k) \<and> isObj (getProp obj2 k)" for k
  proof -
    from that(1) have "k \<in> set (keys obj1)" "k \<in> set (keys obj2)"
      by (simp_all add: commonKeys_def)
    with "1.prems"(3-6) have "objectTree plainKey (getProp obj1 k)" "objectTree plainKey (getProp obj2 k)"
      "finiteNumbers (getProp obj1 k)" "finiteNumbers (getProp obj2 k)"
      by (simp_all add: objectTree_member finiteNumbers_member)
    with "1.IH" [OF that(1)] that(2) show ?thesis by simp
  qed
  have finite: "finiteNumbers (getProp obj1 k) \<and> finiteNumbers (getProp obj2 k)"
    if "k \<in> set ?com" for k
    using that "1.prems"(5,6) by (simp add: commonKeys_def finiteNumbers_member)
  have "distinct ?com" using da by (simp add: com)
  with kapply_members [of ?com ?a2 obj1 obj2] look inner members2 finite obtain cur'
    where step3: "kapply (JObj ?a2) (concat (map (memberOps obj1 obj2) ?com)) = Inr (JObj cur')"
      and keys': "map fst cur' = map fst ?a2"
      and other: "\<forall>k. k \<notin> set ?com \<longrightarrow> map_of cur' k = map_of ?a2 k"
      and settled: "\<forall>k \<in> set ?com. \<exists>w. map_of cur' k = Some w \<and> wf_json w \<and>
        structEq w (getProp obj2 k)"
    by blast
  have run: "kapply obj1 (kdiff obj1 obj2) = Inr (JObj cur')"
    using step1 step2 step3 by (simp add: kdiff_phases kapply_append)
  have keys2: "map fst ?a2 = ?com @ ?add"
    using keys1 by (simp add: comp_def)
  have "set ?com \<union> set ?add = set (map fst b)"
    unfolding com k1 k2 by auto
  then have keyset: "set (map fst cur') = set (map fst b)"
    unfolding keys' keys2 by simp
  have "wf_json (the (map_of cur' k)) \<and> structEq (the (map_of cur' k)) (the (map_of b k))"
    if k: "k \<in> set (map fst cur')" for k
  proof (cases "k \<in> set ?com")
    case True
    with settled obtain w where "map_of cur' k = Some w" "wf_json w" "structEq w (getProp obj2 k)"
      by blast
    then show ?thesis by (simp add: getProp_def b)
  next
    case False
    from k have "k \<in> set (?com @ ?add)"
      unfolding keys' keys2 .
    with False have kadd: "k \<in> set ?add"
      unfolding set_append by blast
    from False keys1 have "k \<notin> fst ` set ?a1" by (metis set_map)
    then have "map_of ?a1 k = None" by (simp add: map_of_eq_None_iff)
    with map_of_key_value [OF kadd, of "getProp obj2"]
    have "map_of ?a2 k = Some (getProp obj2 k)"
      by (simp add: map_add_Some_iff)
    with other False have "map_of cur' k = Some (getProp obj2 k)" by simp
    moreover from kadd have "k \<in> set (keys obj2)" by simp
    with "1.prems"(4) have "wf_json (getProp obj2 k)"
      by (blast intro: objectTree_wf dest: objectTree_member)
    ultimately show ?thesis by (simp add: getProp_def b structEq_refl)
  qed note eachKey = this
  from keyset eachKey have eq: "structEq (JObj cur') (JObj b)"
    by (simp add: list_all_iff)
  have dist: "distinct (map fst cur')"
    unfolding keys' keys2 using da db by (auto simp: com k1 k2)
  have "wf_json v" if "(k, v) \<in> set cur'" for k v
  proof -
    from that dist have "map_of cur' k = Some v" by simp
    moreover from that have "k \<in> set (map fst cur')" by force
    ultimately show ?thesis using eachKey [of k] by simp
  qed
  then have "list_all (\<lambda>(k, v). wf_json v) cur'"
    by (auto simp: list_all_iff)
  with dist have "wf_json (JObj cur')" by simp
  with eq run b show ?case by blast
qed

text \<open>
  C1, as stated, fails. An Added record inside an array has the address \<^verbatim>\<open>a[1]\<close>, its
  pointer \<^verbatim>\<open>/a[1]\<close> names a key of the root and the array is left as it was. A
  difference at the root has the empty pointer, which addresses nothing. A key holding a dot
  is read as two levels by the pointer. \<^verbatim>\<open>Infinity\<close> is \<^verbatim>\<open>null\<close> in the copy that
  \<^verbatim>\<open>applyPatch\<close> works on, and the two print alike, so that no record restores it.
\<close>

theorem diff_patch_roundtrip_counterexample:
  "applyPatch (JObj [(''a'', JArr [JNum 1])])
     (generatePatch (deepCompare (JObj [(''a'', JArr [JNum 1])]) (JObj [(''a'', JArr [JNum 1, JNum 2])]) [])) =
     Inr (JObj [(''a'', JArr [JNum 1]), (''a[1]'', JNum 2)]) \<and>
   \<not> structEq (JObj [(''a'', JArr [JNum 1]), (''a[1]'', JNum 2)]) (JObj [(''a'', JArr [JNum 1, JNum 2])]) \<and>
   applyPatch (JNum 1) (generatePatch (deepCompare (JNum 1) (JNum 2) [])) = Inr (JNum 1) \<and>
   \<not> structEq (JNum 1) (JNum 2) \<and>
   applyPatch (JObj [(''a.b'', JNum 1)])
     (generatePatch (deepCompare (JObj [(''a.b'', JNum 1)]) (JObj [(''a.b'', JNum 2)]) [])) =
     Inr (JObj [(''a.b'', JNum 1), (''a'', JObj [(''b'', JNum 2)])]) \<and>
   \<not> structEq (JObj [(''a.b'', JNum 1), (''a'', JObj [(''b'', JNum 2)])]) (JObj [(''a.b'', JNum 2)]) \<and>
   applyPatch (JObj [(''a'', JInfinity)])
     (generatePatch (deepCompare (JObj [(''a'', JInfinity)]) (JObj [(''a'', JInfinity)]) [])) =
     Inr (JObj [(''a'', JNull)]) \<and>
   \<not> structEq (JObj [(''a'', JNull)]) (JObj [(''a'', JInfinity)]) \<and>
   applyPatch (JObj [(''a'', JNull)])
     (generatePatch (deepCompare (JObj [(''a'', JNull)]) (JObj [(''a'', JInfinity)]) [])) =
     Inr (JObj [(''a'', JNull)])"
  by code_simp

text \<open>
  C1, amended. For all object trees \<open>A\<close> and \<open>B\<close> without arrays that hold neither
  \<^verbatim>\<open>Infinity\<close> nor \<^verbatim>\<open>-Infinity\<close> and whose keys are not empty, hold neither a dot nor a
  slash and are not \<^verbatim>\<open>__proto__\<close>, applying the compiled patch of their diff to \<open>A\<close>
  returns a tree that is structurally equal to \<open>B\<close>.
\<close>

theorem diff_patch_roundtrip:
  assumes "objectTree plainKey (JObj a)" "objectTree plainKey (JObj b)"
    and "finiteNumbers (JObj a)" "finiteNumbers (JObj b)"
  shows "\<exists>r. applyPatch (JObj a) (generatePatch (deepCompare (JObj a) (JObj b) [])) = Inr r \<and>
    wf_json r \<and> structEq r (JObj b)"
proof -
  have "generatePatch (deepCompare (JObj a) (JObj b) (dotted [])) =
      map (toPatch []) (kdiff (JObj a) (JObj b))"
    using assms(1,2) by (intro generatePatch_kdiff) simp_all
  moreover have "applyAll (JObj a) (map (toPatch []) (kdiff (JObj a) (JObj b))) =
      kapply (JObj a) (kdiff (JObj a) (JObj b))"
    using assms(1,2) by (intro applyAll_kapply kdiff_plain)
  moreover from assms(3) have "jsonCopy (JObj a) = JObj a"
    by (rule jsonCopy_finite)
  moreover from kapply_kdiff [OF _ _ assms]
  obtain r where "kapply (JObj a) (kdiff (JObj a) (JObj b)) = Inr r" "wf_json r" "structEq r (JObj b)"
    by auto
  ultimately show ?thesis by (auto simp: applyPatch_def simp del: jsonCopy.simps)
qed

theorem diff_patch_roundtrip_witness:
  "objectTree plainKey (JObj [(''x'', JNum 1), (''y'', JObj [(''z'', JNum 1)]), (''w'', JBool True)]) \<and>
   objectTree plainKey (JObj [(''y'', JObj [(''z'', JNum 2), (''u'', JNull)]), (''x'', JNum 1), (''v'', JStr ''s'')]) \<and>
   finiteNumbers (JObj [(''x'', JNum 1), (''y'', JObj [(''z'', JNum 1)]), (''w'', JBool True)]) \<and>
   finiteNumbers (JObj [(''y'', JObj [(''z'', JNum 2), (''u'', JNull)]), (''x'', JNum 1), (''v'', JStr ''s'')]) \<and>
   (\<exists>r. applyPatch (JObj [(''x'', JNum 1), (''y'', JObj [(''z'', JNum 1)]), (''w'', JBool True)])
      (generatePatch (deepCompare
         (JObj [(''x'', JNum 1), (''y'', JObj [(''z'', JNum 1)]), (''w'', JBool True)])
         (JObj [(''y'', JObj [(''z'', JNum 2), (''u'', JNull)]), (''x'', JNum 1), (''v'', JStr ''s'')]) [])) = Inr r \<and>
      wf_json r \<and>
      structEq r (JObj [(''y'', JObj [(''z'', JNum 2), (''u'', JNull)]), (''x'', JNum 1), (''v'', JStr ''s'')])) \<and>
   applyPatch (JObj [(''x'', JNum 1), (''y'', JObj [(''z'', JNum 1)]), (''w'', JBool True)])
      (generatePatch (deepCompare
         (JObj [(''x'', JNum 1), (''y'', JObj [(''z'', JNum 1)]), (''w'', JBool True)])
         (JObj [(''y'', JObj [(''z'', JNum 2), (''u'', JNull)]), (''x'', JNum 1), (''v'', JStr ''s'')]) [])) =
     Inr (JObj [(''x'', JNum 1), (''y'', JObj [(''z'', JNum 2), (''u'', JNull)]), (''v'', JStr ''s'')])"
proof -
  have left: "objectTree plainKey
      (JObj [(''x'', JNum 1), (''y'', JObj [(''z'', JNum 1)]), (''w'', JBool True)])"
    by (simp add: plainKey_def dotFree_def)
  have right: "objectTree plainKey
      (JObj [(''y'', JObj [(''z'', JNum 2), (''u'', JNull)]), (''x'', JNum 1), (''v'', JStr ''s'')])"
    by (simp add: plainKey_def dotFree_def)
  have finiteLeft: "finiteNumbers
      (JObj [(''x'', JNum 1), (''y'', JObj [(''z'', JNum 1)]), (''w'', JBool True)])"
    by simp
  have finiteRight: "finiteNumbers
      (JObj [(''y'', JObj [(''z'', JNum 2), (''u'', JNull)]), (''x'', JNum 1), (''v'', JStr ''s'')])"
    by simp
  have result: "applyPatch (JObj [(''x'', JNum 1), (''y'', JObj [(''z'', JNum 1)]), (''w'', JBool True)])
      (generatePatch (deepCompare
         (JObj [(''x'', JNum 1), (''y'', JObj [(''z'', JNum 1)]), (''w'', JBool True)])
         (JObj [(''y'', JObj [(''z'', JNum 2), (''u'', JNull)]), (''x'', JNum 1), (''v'', JStr ''s'')]) [])) =
     Inr (JObj [(''x'', JNum 1), (''y'', JObj [(''z'', JNum 2), (''u'', JNull)]), (''v'', JStr ''s'')])"
    by code_simp
  from diff_patch_roundtrip [OF left right finiteLeft finiteRight] left right finiteLeft finiteRight result
  show ?thesis
    by blast
qed

end
